theory Spec2Isabelle
  imports Main "HOL-Library.AList" "HOL-Library.Sublist"
begin

section \<open>Constants of src/index.ts\<close>

definition DEFAULT_BASE_SELECTOR :: string where
  "DEFAULT_BASE_SELECTOR = ''.icon''"

definition DEFAULT_CLASS_PREFIX :: string where
  "DEFAULT_CLASS_PREFIX = ''icon-''"

definition DEFAULT_START_CODEPOINT :: int where
  "DEFAULT_START_CODEPOINT = 0xf101"

definition DEFAULT_FILE_OUTPUTS :: "string list" where
  "DEFAULT_FILE_OUTPUTS = [''woff2'', ''woff'']"

section \<open>Plain JavaScript objects used as dictionaries\<close>

text \<open>
  The tables of the generator (\<open>codepoints\<close>, \<open>names\<close>) are object literals \<open>{}\<close>, and
  the user's \<open>options.codepoints\<close> and \<open>options.renames\<close> are plain objects too. Such an
  object is modelled by the list of its own enumerable properties in creation order.
  Three facts of the language are written out, because the generator's behaviour
  depends on them:
  \<^item> a read \<open>obj[k]\<close> that finds no own property continues in \<open>Object.prototype\<close>, whose
    members (\<open>constructor\<close>, \<open>toString\<close>, ...) are functions, and \<open>__proto__\<close> reads
    the prototype object itself;
  \<^item> an assignment \<open>obj[k] = v\<close> creates or overwrites an own property, keeping the
    position of an existing key, except for \<open>k = "__proto__"\<close>, whose inherited setter
    ignores every value that is not an object;
  \<^item> \<open>Object.entries\<close> and \<open>Object.values\<close> list the keys that are array indices
    (canonical decimal numerals below \<open>2^32 - 1\<close>) first, in ascending numeric order,
    and the other keys after them in creation order.

  Numbers are integer-valued IEEE doubles, modelled as \<open>int\<close>. Comparison and
  \<open>includes\<close> are exact on them; the one arithmetic operation of the generator, the
  increment of the cursor, is \<open>js_inc\<close> below, which is exact up to \<open>2^53\<close> and rounds
  beyond. Fractions, \<open>NaN\<close> and the infinities are outside this model. (The codepoint of
  a glyph must lie in 0 ... 0x10FFFF, or the run fails at \<open>String.fromCodePoint\<close>; see
  \<open>make_glyph\<close> below.)
\<close>

type_synonym 'v js_object = "(string \<times> 'v) list"

definition object_prototype_keys :: "string list" where
  "object_prototype_keys =
     [''constructor'', ''__defineGetter__'', ''__defineSetter__'', ''hasOwnProperty'',
      ''__lookupGetter__'', ''__lookupSetter__'', ''isPrototypeOf'',
      ''propertyIsEnumerable'', ''toString'', ''valueOf'', ''__proto__'',
      ''toLocaleString'']"

datatype 'v js_value = Undefined | Own 'v | Inherited string

definition get_prop :: "'v js_object \<Rightarrow> string \<Rightarrow> 'v js_value" where
  "get_prop obj k =
     (case map_of obj k of
        Some v \<Rightarrow> Own v
      | None \<Rightarrow> if k \<in> set object_prototype_keys then Inherited k else Undefined)"

definition set_prop :: "'v js_object \<Rightarrow> string \<Rightarrow> 'v \<Rightarrow> 'v js_object" where
  "set_prop obj k v = (if k = ''__proto__'' then obj else AList.update k v obj)"

text \<open>
  The text an inherited member turns into when it is used as a property key or in a
  template literal (V8, the engine of Node.js, on which the generator's \<open>fs\<close> and
  \<open>path\<close> imports run).
\<close>

definition inherited_key :: "string \<Rightarrow> string" where
  "inherited_key k =
     (if k = ''__proto__'' then ''[object Object]''
      else ''function '' @ (if k = ''constructor'' then ''Object'' else k)
           @ ''() { [native code] }'')"

definition is_digit :: "char \<Rightarrow> bool" where
  "is_digit c = (48 \<le> (of_char c :: nat) \<and> (of_char c :: nat) \<le> 57)"

definition dec_value :: "string \<Rightarrow> nat" where
  "dec_value s = foldl (\<lambda>a c. 10 * a + ((of_char c :: nat) - 48)) 0 s"

definition is_array_index :: "string \<Rightarrow> bool" where
  "is_array_index s =
     (s \<noteq> [] \<and> list_all is_digit s \<and> (s = ''0'' \<or> hd s \<noteq> CHR ''0'')
      \<and> dec_value s < 4294967295)"

definition object_entries :: "'v js_object \<Rightarrow> (string \<times> 'v) list" where
  "object_entries obj =
     sort_key (\<lambda>kv. dec_value (fst kv)) (filter (\<lambda>kv. is_array_index (fst kv)) obj)
     @ filter (\<lambda>kv. \<not> is_array_index (fst kv)) obj"

definition object_values :: "'v js_object \<Rightarrow> 'v list" where
  "object_values obj = map snd (object_entries obj)"

section \<open>The request\<close>

record CssOptions =
  classPrefix :: "string option"
  baseSelector :: "string option"

text \<open>
  \<open>GenerateOptions\<close>, with \<open>undefined\<close> as \<open>None\<close>. The field \<open>options\<close> (tuning of the
  font assembler and of the TrueType converter) is only handed to those libraries; it
  is part of the collaborators below. \<open>types\<close> holds strings: the type \<open>Font[]\<close> is
  erased at run time, and the writer has a branch for any other string.
\<close>

record GenerateOptions =
  fontName :: string
  files :: "string list"
  dest :: string
  types :: "string list option"
  startCodepoint :: "int option"
  codepoints :: "int js_object option"
  renames :: "string js_object option"
  cssOptions :: "CssOptions option"

section \<open>Codepoint assignment (generateSvgFont, lines 219-256)\<close>

record gen_state =
  st_codepoints :: "int js_object"
  st_names :: "string js_object"
  currentCodepoint :: int

text \<open>
  \<open>currentCodepoint += 1\<close> on an integer-valued double. From \<open>-2^53\<close> up to \<open>2^53 - 1\<close> the
  sum is exact. Beyond, doubles are 2 apart up to magnitude \<open>2^54\<close>, the sum lies halfway
  between two of them and is rounded to the one with the even mantissa (the number
  itself, or the number plus 2); from magnitude \<open>2^54\<close> on the number itself is nearest.
\<close>

definition js_inc :: "int \<Rightarrow> int" where
  "js_inc x =
     (if - (2 ^ 53) \<le> x \<and> x < 2 ^ 53 then x + 1
      else if \<bar>x\<bar> < 2 ^ 54 \<and> odd (\<bar>x\<bar> div 2) then x + 2
      else x)"

text \<open>
  The loop of \<open>newCodepoint\<close>:
  \<open>do { currentCodepoint += 1 } while (items.includes(currentCodepoint))\<close>.
  It need not end: where the increment is absorbed and the value is in \<open>items\<close>, it runs
  forever, which is the value \<open>None\<close>.
\<close>

partial_function (option) do_while :: "int list \<Rightarrow> int \<Rightarrow> int option" where
  "do_while items cur =
     (if js_inc cur \<in> set items then do_while items (js_inc cur) else Some (js_inc cur))"

definition newCodepoint :: "gen_state \<Rightarrow> (int \<times> gen_state) option" where
  "newCodepoint st =
     (case do_while (object_values (st_codepoints st)) (currentCodepoint st) of
        None \<Rightarrow> None
      | Some c \<Rightarrow> Some (c, st\<lparr>currentCodepoint := c\<rparr>))"

text \<open>\<open>!codepoints[name]\<close>: true for a missing entry and for the number 0.\<close>

definition falsy :: "int js_value \<Rightarrow> bool" where
  "falsy v = (case v of Undefined \<Rightarrow> True | Own n \<Rightarrow> n = 0 | Inherited k \<Rightarrow> False)"

text \<open>
  \<open>options.renames?.[filename] ?? filename\<close>, as the property key it is used as.
  \<open>parse_name\<close> stands for \<open>path.parse(file).name\<close> of Node.js.
\<close>

definition resolve_name :: "(string \<Rightarrow> string) \<Rightarrow> GenerateOptions \<Rightarrow> string \<Rightarrow> string" where
  "resolve_name parse_name opts file =
     (let filename = parse_name file in
      case renames opts of
        None \<Rightarrow> filename
      | Some r \<Rightarrow>
          (case get_prop r filename of
             Own n \<Rightarrow> n
           | Inherited k \<Rightarrow> inherited_key k
           | Undefined \<Rightarrow> filename))"

text \<open>The body of the loop over the resolved name (lines 252-255).\<close>

definition assign_name :: "string \<Rightarrow> string \<Rightarrow> gen_state \<Rightarrow> gen_state option" where
  "assign_name file name st =
     (if falsy (get_prop (st_codepoints st) name)
      then (case newCodepoint st of
              None \<Rightarrow> None
            | Some (c, st') \<Rightarrow>
                Some (st'\<lparr>st_codepoints := set_prop (st_codepoints st') name c,
                          st_names := set_prop (st_names st') file name\<rparr>))
      else Some (st\<lparr>st_names := set_prop (st_names st) file name\<rparr>))"

text \<open>\<open>options.codepoints ?? {}\<close> and \<open>options.startCodepoint ?? DEFAULT_START_CODEPOINT\<close>.\<close>

definition overrides :: "GenerateOptions \<Rightarrow> int js_object" where
  "overrides opts = (case codepoints opts of None \<Rightarrow> [] | Some obj \<Rightarrow> obj)"

definition start :: "GenerateOptions \<Rightarrow> int" where
  "start opts = (case startCodepoint opts of None \<Rightarrow> DEFAULT_START_CODEPOINT | Some s \<Rightarrow> s)"

text \<open>Lines 245-247: every entry of the override object is stored, in \<open>Object.entries\<close> order.\<close>

definition seed_codepoints :: "int js_object \<Rightarrow> int js_object" where
  "seed_codepoints ov =
     fold (\<lambda>entry tbl. set_prop tbl (fst entry) (snd entry)) (object_entries ov) []"

definition init_state :: "GenerateOptions \<Rightarrow> gen_state" where
  "init_state opts =
     \<lparr>st_codepoints = seed_codepoints (overrides opts),
      st_names = [],
      currentCodepoint = start opts\<rparr>"

text \<open>
  Lines 248-256: the loop over \<open>options.files\<close>, each file with the name it resolves to.
  The loop returns no state when a call of \<open>newCodepoint\<close> does not return.
\<close>

definition resolved :: "(string \<Rightarrow> string) \<Rightarrow> GenerateOptions \<Rightarrow> (string \<times> string) list" where
  "resolved parse_name opts = map (\<lambda>file. (file, resolve_name parse_name opts file)) (files opts)"

fun assign_names :: "(string \<times> string) list \<Rightarrow> gen_state \<Rightarrow> gen_state option" where
  "assign_names [] st = Some st"
| "assign_names (fn # fns) st =
     (case assign_name (fst fn) (snd fn) st of
        None \<Rightarrow> None
      | Some st' \<Rightarrow> assign_names fns st')"

definition assign_codepoints :: "(string \<Rightarrow> string) \<Rightarrow> GenerateOptions \<Rightarrow> gen_state option" where
  "assign_codepoints parse_name opts = assign_names (resolved parse_name opts) (init_state opts)"

text \<open>The table \<open>generateSvgFont\<close> resolves with.\<close>

definition final_codepoints :: "(string \<Rightarrow> string) \<Rightarrow> GenerateOptions \<Rightarrow> int js_object option" where
  "final_codepoints parse_name opts = map_option st_codepoints (assign_codepoints parse_name opts)"

text \<open>
  The values \<open>newCodepoint\<close> returns during the loop, in file order, each with the name
  it is stored under (after a call the cursor is the value returned).
\<close>

fun auto_assigned :: "(string \<times> string) list \<Rightarrow> gen_state \<Rightarrow> (string \<times> int) list option" where
  "auto_assigned [] st = Some []"
| "auto_assigned (fn # fns) st =
     (case assign_name (fst fn) (snd fn) st of
        None \<Rightarrow> None
      | Some st' \<Rightarrow>
          (case auto_assigned fns st' of
             None \<Rightarrow> None
           | Some es \<Rightarrow>
               Some (if falsy (get_prop (st_codepoints st) (snd fn))
                     then (snd fn, currentCodepoint st') # es else es)))"

definition auto_values :: "(string \<Rightarrow> string) \<Rightarrow> GenerateOptions \<Rightarrow> int list option" where
  "auto_values parse_name opts =
     map_option (map snd) (auto_assigned (resolved parse_name opts) (init_state opts))"

text \<open>
  The allocation returns a table when the start value is at least \<open>-2^53\<close> and the start
  value and every override value, plus the number of files, stay within \<open>2^53\<close>.
\<close>

definition in_exact_range :: "GenerateOptions \<Rightarrow> bool" where
  "in_exact_range opts =
     (- (2 ^ 53) \<le> start opts
      \<and> start opts + int (length (files opts)) \<le> 2 ^ 53
      \<and> list_all (\<lambda>e. snd e + int (length (files opts)) \<le> 2 ^ 53) (overrides opts))"

section \<open>The stylesheet (generateCssContent, lines 184-216)\<close>

text \<open>\<open>Array.prototype.join\<close>.\<close>

fun join :: "string \<Rightarrow> string list \<Rightarrow> string" where
  "join sep [] = []"
| "join sep [x] = x"
| "join sep (x # y # ys) = x @ sep @ join sep (y # ys)"

text \<open>\<open>options.types ?? DEFAULT_FILE_OUTPUTS\<close>.\<close>

definition requested_types :: "GenerateOptions \<Rightarrow> string list" where
  "requested_types opts = (case types opts of None \<Rightarrow> DEFAULT_FILE_OUTPUTS | Some ts \<Rightarrow> ts)"

text \<open>
  Lines 188-194: the array literal that is filtered by the requested types, the format
  keyword of a type, one \<open>url(...) format(...)\<close> entry, and the entries joined by a comma.
\<close>

definition preference_order :: "string list" where
  "preference_order = [''woff2'', ''woff'', ''ttf'', ''svg'']"

definition src_types :: "GenerateOptions \<Rightarrow> string list" where
  "src_types opts = filter (\<lambda>t. t \<in> set (requested_types opts)) preference_order"

definition format_keyword :: "string \<Rightarrow> string" where
  "format_keyword t = (if t = ''ttf'' then ''truetype'' else t)"

definition dquote :: string where
  "dquote = [CHR 0x22]"

definition src_entry :: "GenerateOptions \<Rightarrow> string \<Rightarrow> string" where
  "src_entry opts t =
     ''url('' @ dquote @ ''./'' @ fontName opts @ ''.'' @ t @ dquote @ '') format(''
       @ dquote @ format_keyword t @ dquote @ '')''"

definition src :: "GenerateOptions \<Rightarrow> string" where
  "src opts = join '','' (map (src_entry opts) (src_types opts))"

text \<open>Lines 185-186: \<open>options.cssOptions?.baseSelector ?? DEFAULT_BASE_SELECTOR\<close> and the class prefix.\<close>

definition selector :: "GenerateOptions \<Rightarrow> string" where
  "selector opts =
     (case cssOptions opts of
        None \<Rightarrow> DEFAULT_BASE_SELECTOR
      | Some c \<Rightarrow> (case baseSelector c of None \<Rightarrow> DEFAULT_BASE_SELECTOR | Some s \<Rightarrow> s))"

definition class_prefix :: "GenerateOptions \<Rightarrow> string" where
  "class_prefix opts =
     (case cssOptions opts of
        None \<Rightarrow> DEFAULT_CLASS_PREFIX
      | Some c \<Rightarrow> (case classPrefix c of None \<Rightarrow> DEFAULT_CLASS_PREFIX | Some s \<Rightarrow> s))"

text \<open>
  \<open>Number.prototype.toString(16)\<close> on an integer: the digits 0-9 and a-f, most
  significant first, no padding, and a minus sign before the digits of a negative number.
\<close>

definition hex_digits :: string where
  "hex_digits = ''0123456789abcdef''"

fun to_hex :: "nat \<Rightarrow> string" where
  "to_hex n = (if n < 16 then [hex_digits ! n] else to_hex (n div 16) @ [hex_digits ! (n mod 16)])"

definition toString16 :: "int \<Rightarrow> string" where
  "toString16 n = (if n < 0 then ''-'' @ to_hex (nat (- n)) else to_hex (nat n))"

text \<open>The three parts of the stylesheet (lines 196-215), joined by a line feed.\<close>

definition font_face :: "GenerateOptions \<Rightarrow> string" where
  "font_face opts = ''@font-face { font-family: '' @ fontName opts @ ''; src: '' @ src opts @ ''; }''"

definition nl :: string where
  "nl = [CHR 0x0A]"

definition tab :: string where
  "tab = [CHR 0x09]"

definition base_rule :: "GenerateOptions \<Rightarrow> string" where
  "base_rule opts =
     selector opts @ '' {'' @ nl
     @ tab @ tab @ tab @ ''display: inline-block;'' @ nl
     @ nl
     @ tab @ tab @ tab @ ''font-family: '' @ fontName opts @ '' !important;'' @ nl
     @ tab @ tab @ tab @ ''font-style: normal;'' @ nl
     @ tab @ tab @ tab @ ''font-variant: normal;'' @ nl
     @ nl
     @ tab @ tab @ tab @ ''line-height: 1;'' @ nl
     @ tab @ tab @ tab @ ''text-rendering: auto;'' @ nl
     @ tab @ tab @ tab @ ''vertical-align: middle;'' @ nl
     @ tab @ tab @ ''}''"

definition icon_rule :: "GenerateOptions \<Rightarrow> string \<times> int \<Rightarrow> string" where
  "icon_rule opts entry =
     (let name = fst entry;
          val = [CHR 0x5C] @ toString16 (snd entry)
      in selector opts @ ''.'' @ class_prefix opts @ name @ '':before { content: '' @ dquote @ val @ dquote @ ''; }'')"

definition icon_rules :: "GenerateOptions \<Rightarrow> int js_object \<Rightarrow> string list" where
  "icon_rules opts tbl = map (icon_rule opts) (object_entries tbl)"

definition generateCssContent :: "GenerateOptions \<Rightarrow> int js_object \<Rightarrow> string" where
  "generateCssContent opts tbl = join nl ([font_face opts, base_rule opts] @ icon_rules opts tbl)"

text \<open>Reading a hexadecimal numeral back, to state what \<open>to_hex\<close> produces.\<close>

definition hex_val :: "char \<Rightarrow> nat" where
  "hex_val c = (if is_digit c then of_char c - 48 else of_char c - 87)"

definition hex_value :: "string \<Rightarrow> nat" where
  "hex_value s = foldl (\<lambda>a c. 16 * a + hex_val c) 0 s"

section \<open>The pipeline (the default export, lines 151-182, and generateSvgFont, lines 258-280)\<close>

text \<open>
  What a stage can fail with: a file-system error, the \<open>RangeError\<close> of
  \<open>String.fromCodePoint\<close>, the \<open>error\<close> event of the font assembler, an exception of a
  converter, and the \<open>Error()\<close> thrown by the default branch of the writer's \<open>switch\<close>.
\<close>

datatype error = FsError | RangeError | AssemblerError | ConverterError | UnknownTypeError

datatype payload = Text string | Binary "nat list"

record glyph =
  glyph_name :: string
  glyph_unicode :: int
  glyph_path :: string

text \<open>
  The libraries and the file system, taken as parameters: \<open>path.parse(file).name\<close>,
  \<open>path.resolve\<close>, \<open>fs.existsSync\<close>, whether \<open>fs.mkdirSync\<close> and \<open>fs.writeFileSync\<close>
  succeed on a path, the font assembler (one result for the whole stream of glyphs: the
  font text of its \<open>finish\<close> event, or its \<open>error\<close> event), and the three converters, each
  of which may throw.
\<close>

record collaborators =
  path_parse_name :: "string \<Rightarrow> string"
  path_resolve :: "string \<Rightarrow> string \<Rightarrow> string"
  existsSync :: "string \<Rightarrow> bool"
  mkdirSync :: "string \<Rightarrow> bool"
  writeFileSync :: "string \<Rightarrow> bool"
  SvgIcons2Font :: "glyph list \<Rightarrow> error + string"
  Svg2Ttf :: "string \<Rightarrow> error + nat list"
  Ttf2Woff :: "nat list \<Rightarrow> error + nat list"
  Ttf2Woff2 :: "nat list \<Rightarrow> error + nat list"

text \<open>
  Lines 258-271. \<open>names[file]\<close> is used as a property key of \<open>codepoints\<close>, and
  \<open>String.fromCodePoint\<close> throws a \<open>RangeError\<close> unless its argument is an integer from 0
  to 0x10FFFF; a missing entry (\<open>undefined\<close>) and an inherited member convert to \<open>NaN\<close>.
\<close>

definition key_of_name :: "string js_value \<Rightarrow> string" where
  "key_of_name v = (case v of Own n \<Rightarrow> n | Inherited k \<Rightarrow> inherited_key k | Undefined \<Rightarrow> ''undefined'')"

definition make_glyph :: "gen_state \<Rightarrow> string \<Rightarrow> error + glyph" where
  "make_glyph st file =
     (let name = key_of_name (get_prop (st_names st) file);
          unicode = get_prop (st_codepoints st) name
      in case unicode of
           Own n \<Rightarrow>
             if 0 \<le> n \<and> n \<le> 0x10FFFF
             then Inr \<lparr>glyph_name = name, glyph_unicode = n, glyph_path = file\<rparr>
             else Inl RangeError
         | _ \<Rightarrow> Inl RangeError)"

fun make_glyphs :: "gen_state \<Rightarrow> string list \<Rightarrow> error + glyph list" where
  "make_glyphs st [] = Inr []"
| "make_glyphs st (file # fs) =
     (case make_glyph st file of
        Inl e \<Rightarrow> Inl e
      | Inr g \<Rightarrow> (case make_glyphs st fs of Inl e \<Rightarrow> Inl e | Inr gs \<Rightarrow> Inr (g # gs)))"

definition generateSvgFont ::
  "collaborators \<Rightarrow> GenerateOptions \<Rightarrow> (error + (string \<times> int js_object)) option" where
  "generateSvgFont env opts =
     (case assign_codepoints (path_parse_name env) opts of
        None \<Rightarrow> None
      | Some st \<Rightarrow>
          Some (case make_glyphs st (files opts) of
                  Inl e \<Rightarrow> Inl e
                | Inr glyphs \<Rightarrow>
                    (case SvgIcons2Font env glyphs of
                       Inl e \<Rightarrow> Inl e
                     | Inr font \<Rightarrow> Inr (font, st_codepoints st))))"

definition data :: "collaborators \<Rightarrow> string \<Rightarrow> string \<Rightarrow> nat list \<Rightarrow> string \<Rightarrow> error + payload" where
  "data env css svg ttf type =
     (if type = ''css'' then Inr (Text css)
      else if type = ''ttf'' then Inr (Binary ttf)
      else if type = ''woff'' then map_sum id Binary (Ttf2Woff env ttf)
      else if type = ''woff2'' then map_sum id Binary (Ttf2Woff2 env ttf)
      else if type = ''svg'' then Inr (Text svg)
      else Inl UnknownTypeError)"

definition write_type ::
  "collaborators \<Rightarrow> GenerateOptions \<Rightarrow> string \<Rightarrow> string \<Rightarrow> nat list \<Rightarrow> string \<Rightarrow> error + (string \<times> payload)" where
  "write_type env opts css svg ttf type =
     (let output = path_resolve env (dest opts) (fontName opts @ ''.'' @ type) in
      case data env css svg ttf type of
        Inl e \<Rightarrow> Inl e
      | Inr d \<Rightarrow> if writeFileSync env output then Inr (output, d) else Inl FsError)"

text \<open>
  The run. \<open>Promise.all\<close> rejects as soon as one callback rejects and does not stop the
  others, so a run is described by the rejections of its callbacks and by the files
  written, both in the order of the list \<open>['css', ...types]\<close> (the order in time is not
  modelled). The run has no outcome (\<open>None\<close>) when the assignment of the codepoints does
  not return. The run succeeds when it has an outcome and nothing is rejected.
\<close>

record outcome =
  rejections :: "error list"
  written :: "(string \<times> payload) list"

fun lefts :: "('a + 'b) list \<Rightarrow> 'a list" where
  "lefts [] = []"
| "lefts (Inl a # xs) = a # lefts xs"
| "lefts (Inr b # xs) = lefts xs"

fun rights :: "('a + 'b) list \<Rightarrow> 'b list" where
  "rights [] = []"
| "rights (Inl a # xs) = rights xs"
| "rights (Inr b # xs) = b # rights xs"

definition output_types :: "GenerateOptions \<Rightarrow> string list" where
  "output_types opts = ''css'' # requested_types opts"

definition generate :: "collaborators \<Rightarrow> GenerateOptions \<Rightarrow> outcome option" where
  "generate env opts =
     (if \<not> existsSync env (dest opts) \<and> \<not> mkdirSync env (dest opts)
      then Some \<lparr>rejections = [FsError], written = []\<rparr>
      else case generateSvgFont env opts of
        None \<Rightarrow> None
      | Some (Inl e) \<Rightarrow> Some \<lparr>rejections = [e], written = []\<rparr>
      | Some (Inr (svg, cps)) \<Rightarrow>
          (let css = generateCssContent opts cps in
           case Svg2Ttf env svg of
             Inl e \<Rightarrow> Some \<lparr>rejections = [e], written = []\<rparr>
           | Inr ttf \<Rightarrow>
               (let results = map (write_type env opts css svg ttf) (output_types opts)
                in Some \<lparr>rejections = lefts results, written = rights results\<rparr>)))"

definition succeeds :: "collaborators \<Rightarrow> GenerateOptions \<Rightarrow> bool" where
  "succeeds env opts = (case generate env opts of None \<Rightarrow> False | Some out \<Rightarrow> rejections out = [])"

definition out_path :: "collaborators \<Rightarrow> GenerateOptions \<Rightarrow> string \<Rightarrow> string" where
  "out_path env opts type = path_resolve env (dest opts) (fontName opts @ ''.'' @ type)"

section \<open>Concrete inputs for the examples\<close>

text \<open>
  \<open>before_dot\<close> agrees with \<open>path.parse(file).name\<close> on the file names used below, which
  have the form \<open>name.svg\<close> with no dot and no separator in \<open>name\<close>. \<open>request\<close> is a
  request with every optional field left out. \<open>demo_env\<close> is an environment in which
  every library call succeeds: the destination does not exist and can be created, and
  the assembler and the converters return fixed contents.
\<close>

definition before_dot :: "string \<Rightarrow> string" where
  "before_dot file = takeWhile (\<lambda>c. c \<noteq> CHR ''.'') file"

definition request :: "string list \<Rightarrow> GenerateOptions" where
  "request fs =
     \<lparr>fontName = ''icon'', files = fs, dest = ''out'', types = None, startCodepoint = None,
      codepoints = None, renames = None, cssOptions = None\<rparr>"

definition demo_env :: collaborators where
  "demo_env =
     \<lparr>path_parse_name = before_dot,
      path_resolve = (\<lambda>d f. d @ ''/'' @ f),
      existsSync = (\<lambda>d. False),
      mkdirSync = (\<lambda>d. True),
      writeFileSync = (\<lambda>p. True),
      SvgIcons2Font = (\<lambda>glyphs. Inr ''<svg/>''),
      Svg2Ttf = (\<lambda>svg. Inr [0]),
      Ttf2Woff = (\<lambda>ttf. Inr (1 # ttf)),
      Ttf2Woff2 = (\<lambda>ttf. Inr (2 # ttf))\<rparr>"

text \<open>The equations that evaluate the definitions on concrete inputs.\<close>

lemmas alloc_eval =
  final_codepoints_def assign_codepoints_def resolved_def request_def init_state_def
  overrides_def start_def seed_codepoints_def assign_name_def resolve_name_def before_dot_def
  get_prop_def object_prototype_keys_def falsy_def newCodepoint_def object_values_def
  object_entries_def set_prop_def is_array_index_def is_digit_def dec_value_def
  do_while.simps js_inc_def inherited_key_def DEFAULT_START_CODEPOINT_def

lemmas auto_eval = auto_values_def alloc_eval

lemmas css_eval =
  to_hex.simps icon_rules_def icon_rule_def selector_def class_prefix_def toString16_def
  hex_digits_def dquote_def src_def src_types_def src_entry_def requested_types_def
  preference_order_def format_keyword_def DEFAULT_BASE_SELECTOR_def DEFAULT_CLASS_PREFIX_def
  DEFAULT_FILE_OUTPUTS_def font_face_def

lemmas run_eval =
  generate_def generateSvgFont_def make_glyph_def key_of_name_def data_def write_type_def
  output_types_def demo_env_def succeeds_def out_path_def generateCssContent_def base_rule_def
  nl_def tab_def css_eval alloc_eval

declare to_hex.simps [simp del]

section \<open>Facts about the assignment loop\<close>

lemma js_inc_ge: "x \<le> js_inc x"
  by (simp add: js_inc_def)

lemma js_inc_exact: "- (2 ^ 53) \<le> x \<Longrightarrow> x < 2 ^ 53 \<Longrightarrow> js_inc x = x + 1"
  by (simp add: js_inc_def)

lemma do_while_Some:
  assumes "do_while items cur = Some c"
  shows "c \<notin> set items \<and> js_inc cur \<le> c"
proof (rule do_while.raw_induct [where P = "\<lambda>items cur c. c \<notin> set items \<and> js_inc cur \<le> c", OF _ assms])
  fix f :: "int list \<Rightarrow> int \<Rightarrow> int option" and items cur c
  assume IH: "\<And>items cur c. f items cur = Some c \<Longrightarrow> c \<notin> set items \<and> js_inc cur \<le> c"
    and eq: "(if js_inc cur \<in> set items then f items (js_inc cur) else Some (js_inc cur)) = Some c"
  show "c \<notin> set items \<and> js_inc cur \<le> c"
  proof (cases "js_inc cur \<in> set items")
    case True
    then have "f items (js_inc cur) = Some c" using eq by simp
    then have "c \<notin> set items \<and> js_inc (js_inc cur) \<le> c" by (rule IH)
    then show ?thesis using js_inc_ge [of "js_inc cur"] by simp
  next
    case False
    then show ?thesis using eq by auto
  qed
qed

text \<open>Where the increments are exact and the values of the table lie below a bound, the loop returns.\<close>

lemma do_while_returns:
  "\<forall>x\<in>set items. x < b \<Longrightarrow> - (2 ^ 53) \<le> cur \<Longrightarrow> cur < b \<Longrightarrow> b \<le> 2 ^ 53 \<Longrightarrow>
   \<exists>c. do_while items cur = Some c \<and> cur < c \<and> c \<le> b"
proof (induction "nat (b - cur)" arbitrary: cur)
  case 0
  then show ?case by simp
next
  case (Suc n)
  have inc: "js_inc cur = cur + 1"
    using Suc.prems by (simp add: js_inc_exact)
  show ?case
  proof (cases "cur + 1 \<in> set items")
    case False
    then have "do_while items cur = Some (cur + 1)"
      using inc by (subst do_while.simps) simp
    then show ?thesis using Suc.prems by simp
  next
    case True
    then have lt: "cur + 1 < b" using Suc.prems(1) by simp
    have "n = nat (b - (cur + 1))" using Suc.hyps(2) by simp
    then obtain c where "do_while items (cur + 1) = Some c" "cur + 1 < c" "c \<le> b"
      using Suc.hyps(1) [of "cur + 1"] Suc.prems lt by auto
    moreover have "do_while items cur = do_while items (cur + 1)"
      using True inc by (subst do_while.simps) simp
    ultimately show ?thesis by simp
  qed
qed

lemma set_object_entries: "set (object_entries obj) = set obj"
  by (auto simp: object_entries_def)

lemma set_object_values: "set (object_values obj) = snd ` set obj"
  by (simp add: object_values_def set_object_entries)

lemma newCodepoint_Some:
  assumes "newCodepoint st = Some (c, st')"
  shows "c \<notin> snd ` set (st_codepoints st)" and "js_inc (currentCodepoint st) \<le> c"
    and "st' = st\<lparr>currentCodepoint := c\<rparr>"
proof -
  from assms have d: "do_while (object_values (st_codepoints st)) (currentCodepoint st) = Some c"
    and s: "st' = st\<lparr>currentCodepoint := c\<rparr>"
    by (auto simp: newCodepoint_def split: option.splits)
  show "c \<notin> snd ` set (st_codepoints st)"
    using do_while_Some [OF d] by (simp add: set_object_values)
  show "js_inc (currentCodepoint st) \<le> c"
    using do_while_Some [OF d] by simp
  show "st' = st\<lparr>currentCodepoint := c\<rparr>" by (rule s)
qed

text \<open>The two ways a step of the loop returns.\<close>

lemma assign_name_cases:
  assumes "assign_name f n st = Some st'"
  obtains (assigned) c where "falsy (get_prop (st_codepoints st) n)"
      and "c \<notin> snd ` set (st_codepoints st)" and "js_inc (currentCodepoint st) \<le> c"
      and "st_codepoints st' = set_prop (st_codepoints st) n c" and "currentCodepoint st' = c"
  | (kept) "\<not> falsy (get_prop (st_codepoints st) n)"
      and "st_codepoints st' = st_codepoints st" and "currentCodepoint st' = currentCodepoint st"
proof (cases "falsy (get_prop (st_codepoints st) n)")
  case True
  then obtain c st1 where n: "newCodepoint st = Some (c, st1)"
    and s: "st' = st1\<lparr>st_codepoints := set_prop (st_codepoints st1) n c,
                      st_names := set_prop (st_names st1) f n\<rparr>"
    using assms by (auto simp: assign_name_def split: option.splits)
  have "st_codepoints st' = set_prop (st_codepoints st) n c" "currentCodepoint st' = c"
    using s newCodepoint_Some(3) [OF n] by simp_all
  then show ?thesis
    using True newCodepoint_Some(1,2) [OF n] by (rule_tac assigned [of c]) auto
next
  case False
  then have "st' = st\<lparr>st_names := set_prop (st_names st) f n\<rparr>"
    using assms by (simp add: assign_name_def)
  then show ?thesis using False by (rule_tac kept) auto
qed

lemma update_values_subset: "snd ` set (AList.update k v al) \<subseteq> insert v (snd ` set al)"
  by (induction al) auto

lemma update_distinct_values:
  "v \<notin> snd ` set al \<Longrightarrow> distinct (map snd al) \<Longrightarrow> distinct (map snd (AList.update k v al))"
proof (induction al)
  case Nil
  then show ?case by simp
next
  case (Cons p al)
  show ?case
  proof (cases "fst p = k")
    case True
    then show ?thesis using Cons.prems by (auto simp: image_iff)
  next
    case False
    have "snd p \<notin> snd ` set (AList.update k v al)"
      using update_values_subset [of k v al] Cons.prems by (auto simp: image_iff)
    then show ?thesis using False Cons by (auto simp: image_iff)
  qed
qed

lemma set_prop_distinct_keys:
  "distinct (map fst al) \<Longrightarrow> distinct (map fst (set_prop al k v))"
  by (simp add: set_prop_def distinct_update)

lemma set_prop_distinct_values:
  "v \<notin> snd ` set al \<Longrightarrow> distinct (map snd al) \<Longrightarrow> distinct (map snd (set_prop al k v))"
  by (simp add: set_prop_def update_distinct_values)

lemma seed_fold_keys:
  "distinct (map fst tbl) \<Longrightarrow>
   distinct (map fst (fold (\<lambda>entry tbl. set_prop tbl (fst entry) (snd entry)) es tbl))"
  by (induction es arbitrary: tbl) (simp_all add: set_prop_distinct_keys)

lemma update_set_subset: "set (AList.update k v al) \<subseteq> insert (k, v) (set al)"
  by (induction al) auto

lemma set_prop_subset: "set (set_prop al k v) \<subseteq> insert (k, v) (set al)"
  using update_set_subset [of k v al] by (auto simp: set_prop_def)

lemma seed_fold_subset:
  "set (fold (\<lambda>entry tbl. set_prop tbl (fst entry) (snd entry)) es tbl) \<subseteq> set tbl \<union> set es"
proof (induction es arbitrary: tbl)
  case Nil
  then show ?case by simp
next
  case (Cons e es)
  show ?case
    using Cons.IH [of "set_prop tbl (fst e) (snd e)"] set_prop_subset [of tbl "fst e" "snd e"]
    by auto
qed

lemma seed_distinct_keys: "distinct (map fst (seed_codepoints ov))"
  by (simp add: seed_codepoints_def seed_fold_keys)

lemma seed_subset: "set (seed_codepoints ov) \<subseteq> set ov"
  using seed_fold_subset [of "object_entries ov" "[]"]
  by (simp add: seed_codepoints_def set_object_entries)

lemma distinct_values_of_inj:
  assumes d: "distinct (map fst al)"
    and i: "\<forall>e1\<in>set al. \<forall>e2\<in>set al. snd e1 = snd e2 \<longrightarrow> fst e1 = fst e2"
  shows "distinct (map snd al)"
proof -
  have "inj_on snd (set al)"
    using i by (auto intro!: inj_onI simp: prod_eq_iff)
  moreover have "distinct al"
    using d by (simp add: distinct_map)
  ultimately show ?thesis by (simp add: distinct_map)
qed

lemma map_of_inj_of_distinct:
  assumes dv: "distinct (map snd al)"
    and a: "map_of al n1 = Some v" and b: "map_of al n2 = Some v"
  shows "n1 = n2"
proof -
  have "(n1, v) \<in> set al" "(n2, v) \<in> set al"
    using a b by (auto dest: map_of_SomeD)
  moreover have "inj_on snd (set al)"
    using dv by (simp add: distinct_map)
  ultimately show ?thesis
    using inj_onD [of snd "set al" "(n1, v)" "(n2, v)"] by simp
qed

lemma assign_name_distinct_keys:
  "assign_name f n st = Some st' \<Longrightarrow> distinct (map fst (st_codepoints st)) \<Longrightarrow>
   distinct (map fst (st_codepoints st'))"
  by (erule assign_name_cases) (simp_all add: set_prop_distinct_keys)

lemma assign_name_distinct_values:
  "assign_name f n st = Some st' \<Longrightarrow> distinct (map snd (st_codepoints st)) \<Longrightarrow>
   distinct (map snd (st_codepoints st'))"
  by (erule assign_name_cases) (simp_all add: set_prop_distinct_values)

lemma assign_names_distinct_keys:
  "assign_names fns st = Some st' \<Longrightarrow> distinct (map fst (st_codepoints st)) \<Longrightarrow>
   distinct (map fst (st_codepoints st'))"
proof (induction fns arbitrary: st)
  case Nil
  then show ?case by simp
next
  case (Cons fn fns)
  then show ?case
    by (auto split: option.splits dest: assign_name_distinct_keys)
qed

lemma assign_names_distinct_values:
  "assign_names fns st = Some st' \<Longrightarrow> distinct (map snd (st_codepoints st)) \<Longrightarrow>
   distinct (map snd (st_codepoints st'))"
proof (induction fns arbitrary: st)
  case Nil
  then show ?case by simp
next
  case (Cons fn fns)
  then show ?case
    by (auto split: option.splits dest: assign_name_distinct_values)
qed

lemma final_table_state:
  "final_codepoints parse_name opts = Some tbl \<Longrightarrow>
   \<exists>st'. assign_names (resolved parse_name opts) (init_state opts) = Some st' \<and> st_codepoints st' = tbl"
  by (auto simp: final_codepoints_def assign_codepoints_def)

lemma final_distinct_keys:
  "final_codepoints parse_name opts = Some tbl \<Longrightarrow> distinct (map fst tbl)"
  using assign_names_distinct_keys [of "resolved parse_name opts" "init_state opts"]
  by (auto dest!: final_table_state simp: init_state_def seed_distinct_keys)

lemma assign_name_returns:
  assumes "- (2 ^ 53) \<le> currentCodepoint st" and "currentCodepoint st < b"
    and "\<forall>x\<in>snd ` set (st_codepoints st). x < b" and "b \<le> 2 ^ 53"
  shows "\<exists>st'. assign_name f n st = Some st' \<and> - (2 ^ 53) \<le> currentCodepoint st'
    \<and> currentCodepoint st' \<le> b \<and> (\<forall>x\<in>snd ` set (st_codepoints st'). x \<le> b)"
proof (cases "falsy (get_prop (st_codepoints st) n)")
  case False
  then show ?thesis using assms by (force simp: assign_name_def)
next
  case True
  obtain c where c: "do_while (object_values (st_codepoints st)) (currentCodepoint st) = Some c"
    and gt: "currentCodepoint st < c" and le: "c \<le> b"
    using do_while_returns [of "object_values (st_codepoints st)" b "currentCodepoint st"] assms
    by (auto simp: set_object_values)
  have sub: "snd ` set (set_prop (st_codepoints st) n c) \<subseteq> insert c (snd ` set (st_codepoints st))"
    using update_values_subset [of n c "st_codepoints st"] by (auto simp: set_prop_def)
  have "\<forall>x\<in>snd ` set (set_prop (st_codepoints st) n c). x \<le> b"
    using sub assms(3) le by fastforce
  then show ?thesis
    using True c gt le assms(1) by (simp add: assign_name_def newCodepoint_def)
qed

lemma assign_names_returns:
  "- (2 ^ 53) \<le> currentCodepoint st \<Longrightarrow>
   currentCodepoint st + int (length fns) \<le> 2 ^ 53 \<Longrightarrow>
   \<forall>x\<in>snd ` set (st_codepoints st). x + int (length fns) \<le> 2 ^ 53 \<Longrightarrow>
   \<exists>st'. assign_names fns st = Some st'"
proof (induction fns arbitrary: st)
  case Nil
  then show ?case by simp
next
  case (Cons fn fns)
  let ?b = "2 ^ 53 - int (length fns)"
  have "\<exists>st'. assign_name (fst fn) (snd fn) st = Some st' \<and> - (2 ^ 53) \<le> currentCodepoint st'
    \<and> currentCodepoint st' \<le> ?b \<and> (\<forall>x\<in>snd ` set (st_codepoints st'). x \<le> ?b)"
    using Cons.prems by (intro assign_name_returns) auto
  then obtain st1 where s: "assign_name (fst fn) (snd fn) st = Some st1"
    and a: "- (2 ^ 53) \<le> currentCodepoint st1" and b: "currentCodepoint st1 \<le> ?b"
    and c: "\<forall>x\<in>snd ` set (st_codepoints st1). x \<le> ?b"
    by blast
  have "\<exists>st'. assign_names fns st1 = Some st'"
    using a b c by (intro Cons.IH) auto
  then show ?case using s by simp
qed

lemma auto_assigned_returns:
  "assign_names fns st = Some st' \<Longrightarrow> \<exists>es. auto_assigned fns st = Some es"
proof (induction fns arbitrary: st)
  case Nil
  then show ?case by simp
next
  case (Cons fn fns)
  then obtain st1 where a: "assign_name (fst fn) (snd fn) st = Some st1"
    and b: "assign_names fns st1 = Some st'"
    by (auto split: option.splits)
  obtain es where "auto_assigned fns st1 = Some es"
    using Cons.IH [OF b] by blast
  then show ?case using a by simp
qed

lemma allocation_returns:
  assumes "in_exact_range opts"
  shows "\<exists>st'. assign_names (resolved parse_name opts) (init_state opts) = Some st'"
proof -
  have "\<forall>x\<in>snd ` set (seed_codepoints (overrides opts)). x + int (length (files opts)) \<le> 2 ^ 53"
    using assms seed_subset [of "overrides opts"] by (auto simp: in_exact_range_def list_all_iff)
  then show ?thesis
    using assms
    by (intro assign_names_returns) (simp_all add: init_state_def resolved_def in_exact_range_def)
qed

lemma final_codepoints_returns:
  "in_exact_range opts \<Longrightarrow> \<exists>tbl. final_codepoints parse_name opts = Some tbl"
  using allocation_returns [of opts parse_name]
  by (auto simp: final_codepoints_def assign_codepoints_def)

lemma auto_values_returns:
  "in_exact_range opts \<Longrightarrow> \<exists>vs. auto_values parse_name opts = Some vs"
  using allocation_returns [of opts parse_name] auto_assigned_returns
  by (fastforce simp: auto_values_def)

lemma assign_name_cursor_le:
  "assign_name f n st = Some st' \<Longrightarrow> currentCodepoint st \<le> currentCodepoint st'"
  using js_inc_ge [of "currentCodepoint st"] by (erule_tac assign_name_cases) auto

lemma auto_assigned_Cons:
  assumes "auto_assigned (fn # fns) st = Some es"
  obtains st1 es1 where "assign_name (fst fn) (snd fn) st = Some st1"
    and "auto_assigned fns st1 = Some es1"
    and "es = (if falsy (get_prop (st_codepoints st) (snd fn))
               then (snd fn, currentCodepoint st1) # es1 else es1)"
  using assms by (auto split: option.splits)

lemma auto_assigned_ge:
  "auto_assigned fns st = Some es \<Longrightarrow> e \<in> set es \<Longrightarrow> js_inc (currentCodepoint st) \<le> snd e"
proof (induction fns arbitrary: st es)
  case Nil
  then show ?case by simp
next
  case (Cons fn fns)
  from Cons.prems(1) obtain st1 es1 where a: "assign_name (fst fn) (snd fn) st = Some st1"
    and r: "auto_assigned fns st1 = Some es1"
    and es: "es = (if falsy (get_prop (st_codepoints st) (snd fn))
               then (snd fn, currentCodepoint st1) # es1 else es1)"
    by (rule auto_assigned_Cons)
  have step: "js_inc (currentCodepoint st) \<le> js_inc (currentCodepoint st1)"
    and head: "falsy (get_prop (st_codepoints st) (snd fn)) \<Longrightarrow> js_inc (currentCodepoint st) \<le> currentCodepoint st1"
    using a js_inc_ge [of "currentCodepoint st1"] by (auto elim!: assign_name_cases)
  have tail: "e \<in> set es1 \<Longrightarrow> js_inc (currentCodepoint st) \<le> snd e"
    using Cons.IH [OF r] step by fastforce
  show ?case
    using Cons.prems(2) es head tail by (auto split: if_splits)
qed

lemma auto_assigned_sorted:
  "auto_assigned fns st = Some es \<Longrightarrow> sorted (map snd es)"
proof (induction fns arbitrary: st es)
  case Nil
  then show ?case by simp
next
  case (Cons fn fns)
  from Cons.prems(1) obtain st1 es1 where a: "assign_name (fst fn) (snd fn) st = Some st1"
    and r: "auto_assigned fns st1 = Some es1"
    and es: "es = (if falsy (get_prop (st_codepoints st) (snd fn))
               then (snd fn, currentCodepoint st1) # es1 else es1)"
    by (rule auto_assigned_Cons)
  have "\<forall>e\<in>set es1. currentCodepoint st1 \<le> snd e"
    using auto_assigned_ge [OF r] js_inc_ge [of "currentCodepoint st1"] by fastforce
  then show ?case using es Cons.IH [OF r] by auto
qed

lemma auto_assigned_strict:
  "auto_assigned fns st = Some es \<Longrightarrow> - (2 ^ 53) \<le> currentCodepoint st \<Longrightarrow>
   \<forall>e\<in>set es. snd e < 2 ^ 53 \<Longrightarrow> sorted_wrt (<) (map snd es)"
proof (induction fns arbitrary: st es)
  case Nil
  then show ?case by simp
next
  case (Cons fn fns)
  from Cons.prems(1) obtain st1 es1 where a: "assign_name (fst fn) (snd fn) st = Some st1"
    and r: "auto_assigned fns st1 = Some es1"
    and es: "es = (if falsy (get_prop (st_codepoints st) (snd fn))
               then (snd fn, currentCodepoint st1) # es1 else es1)"
    by (rule auto_assigned_Cons)
  have lo: "- (2 ^ 53) \<le> currentCodepoint st1"
    using assign_name_cursor_le [OF a] Cons.prems(2) by simp
  have sub: "\<forall>e\<in>set es1. snd e < 2 ^ 53"
    using Cons.prems(3) es by (auto split: if_splits)
  have rest: "sorted_wrt (<) (map snd es1)"
    using Cons.IH [OF r lo sub] .
  show ?case
  proof (cases "falsy (get_prop (st_codepoints st) (snd fn))")
    case False
    then show ?thesis using es rest by simp
  next
    case True
    then have "currentCodepoint st1 < 2 ^ 53"
      using Cons.prems(3) es by simp
    then have "js_inc (currentCodepoint st1) = currentCodepoint st1 + 1"
      using lo by (simp add: js_inc_exact)
    then have "\<forall>e\<in>set es1. currentCodepoint st1 < snd e"
      using auto_assigned_ge [OF r] by fastforce
    then show ?thesis using True es rest by auto
  qed
qed

text \<open>Where the increment is absorbed on a value of the table, the loop never returns.\<close>

lemma do_while_absorbed:
  assumes "js_inc cur = cur" and "cur \<in> set items"
  shows "do_while items cur = None"
proof (rule ccontr)
  assume "do_while items cur \<noteq> None"
  then obtain c where c: "do_while items cur = Some c" by auto
  have "\<not> (js_inc cur = cur \<and> cur \<in> set items)"
  proof (rule do_while.raw_induct [where P = "\<lambda>items cur c. \<not> (js_inc cur = cur \<and> cur \<in> set items)", OF _ c])
    fix f :: "int list \<Rightarrow> int \<Rightarrow> int option" and items cur c
    assume IH: "\<And>items cur c. f items cur = Some c \<Longrightarrow> \<not> (js_inc cur = cur \<and> cur \<in> set items)"
      and eq: "(if js_inc cur \<in> set items then f items (js_inc cur) else Some (js_inc cur)) = Some c"
    show "\<not> (js_inc cur = cur \<and> cur \<in> set items)"
    proof
      assume h: "js_inc cur = cur \<and> cur \<in> set items"
      then have "f items cur = Some c" using eq by simp
      then show False using IH h by blast
    qed
  qed
  then show False using assms by simp
qed

lemma map_of_set_prop_other:
  "n \<noteq> m \<Longrightarrow> map_of (set_prop al n v) m = map_of al m"
  by (simp add: set_prop_def update_conv')

lemma map_of_set_prop_same:
  "n \<noteq> ''__proto__'' \<Longrightarrow> map_of (set_prop al n v) n = Some v"
  by (simp add: set_prop_def update_conv')

lemma assign_name_keeps_truthy:
  assumes "assign_name f n st = Some st'" and "map_of (st_codepoints st) m = Some c" and "c \<noteq> 0"
  shows "map_of (st_codepoints st') m = Some c"
  using assms(1)
proof (cases rule: assign_name_cases)
  case (assigned v)
  then have "n \<noteq> m" using assms(2,3) by (auto simp: falsy_def get_prop_def)
  then show ?thesis using assigned assms(2) by (simp add: map_of_set_prop_other)
next
  case kept
  then show ?thesis using assms(2) by simp
qed

lemma assign_names_keeps_truthy:
  "assign_names fns st = Some st' \<Longrightarrow> map_of (st_codepoints st) m = Some c \<Longrightarrow> c \<noteq> 0 \<Longrightarrow>
   map_of (st_codepoints st') m = Some c"
proof (induction fns arbitrary: st)
  case Nil
  then show ?case by simp
next
  case (Cons fn fns)
  then obtain st1 where a: "assign_name (fst fn) (snd fn) st = Some st1"
    and b: "assign_names fns st1 = Some st'"
    by (auto split: option.splits)
  show ?case
    using Cons.IH [OF b assign_name_keeps_truthy [OF a Cons.prems(2,3)] Cons.prems(3)] .
qed

text \<open>
  A value that a name has before the loop and still has after it is never returned by
  \<open>newCodepoint\<close> during the loop. (A stored 0 counts as no entry and is overwritten; the
  name then keeps its new value, so it does not have 0 at the end.)
\<close>

lemma standing_value_not_assigned:
  "assign_names fns st = Some st' \<Longrightarrow> auto_assigned fns st = Some es \<Longrightarrow>
   map_of (st_codepoints st) m = Some c \<Longrightarrow> map_of (st_codepoints st') m = Some c \<Longrightarrow>
   e \<in> set es \<Longrightarrow> snd e \<noteq> c"
proof (induction fns arbitrary: st es)
  case Nil
  then show ?case by simp
next
  case (Cons fn fns)
  from Cons.prems(2) obtain st1 es1 where a: "assign_name (fst fn) (snd fn) st = Some st1"
    and r: "auto_assigned fns st1 = Some es1"
    and es: "es = (if falsy (get_prop (st_codepoints st) (snd fn))
               then (snd fn, currentCodepoint st1) # es1 else es1)"
    by (rule auto_assigned_Cons)
  have b: "assign_names fns st1 = Some st'"
    using Cons.prems(1) a by simp
  have c_in: "c \<in> snd ` set (st_codepoints st)"
    using Cons.prems(3) by (force dest: map_of_SomeD)
  from a show ?case
  proof (cases rule: assign_name_cases)
    case kept
    then have "map_of (st_codepoints st1) m = Some c" using Cons.prems(3) by simp
    then have "e \<in> set es1 \<Longrightarrow> snd e \<noteq> c"
      using Cons.IH [OF b r _ Cons.prems(4)] by blast
    then show ?thesis using Cons.prems(5) es kept by simp
  next
    case (assigned v)
    have fresh: "v \<noteq> c" using assigned(2) c_in by auto
    have kept: "map_of (st_codepoints st1) m = Some c"
    proof (cases "snd fn = m \<and> m \<noteq> ''__proto__''")
      case False
      then have "snd fn \<noteq> m \<or> snd fn = ''__proto__''" by auto
      then show ?thesis
      proof
        assume "snd fn \<noteq> m"
        then show ?thesis using assigned(4) Cons.prems(3) by (simp add: map_of_set_prop_other)
      next
        assume "snd fn = ''__proto__''"
        then show ?thesis using assigned(4) Cons.prems(3) by (simp add: set_prop_def)
      qed
    next
      case True
      then have c0: "c = 0"
        using assigned(1) Cons.prems(3) by (simp add: falsy_def get_prop_def)
      have "map_of (st_codepoints st1) m = Some v"
        using assigned(4) True by (simp add: map_of_set_prop_same)
      moreover have "v \<noteq> 0" using fresh c0 by simp
      ultimately have "map_of (st_codepoints st') m = Some v"
        using assign_names_keeps_truthy [OF b] by blast
      then show ?thesis using Cons.prems(4) fresh by simp
    qed
    have "e \<in> set es1 \<Longrightarrow> snd e \<noteq> c"
      using Cons.IH [OF b r kept Cons.prems(4)] by blast
    then show ?thesis using Cons.prems(5) es assigned(1,5) fresh by auto
  qed
qed

text \<open>Every entry of the table after the loop was there before it or was auto-assigned in it.\<close>

lemma assign_names_entries:
  "assign_names fns st = Some st' \<Longrightarrow> auto_assigned fns st = Some es \<Longrightarrow>
   set (st_codepoints st') \<subseteq> set (st_codepoints st) \<union> set es"
proof (induction fns arbitrary: st es)
  case Nil
  then show ?case by simp
next
  case (Cons fn fns)
  from Cons.prems(2) obtain st1 es1 where a: "assign_name (fst fn) (snd fn) st = Some st1"
    and r: "auto_assigned fns st1 = Some es1"
    and es: "es = (if falsy (get_prop (st_codepoints st) (snd fn))
               then (snd fn, currentCodepoint st1) # es1 else es1)"
    by (rule auto_assigned_Cons)
  have b: "assign_names fns st1 = Some st'"
    using Cons.prems(1) a by simp
  have ih: "set (st_codepoints st') \<subseteq> set (st_codepoints st1) \<union> set es1"
    using Cons.IH [OF b r] .
  from a show ?case
  proof (cases rule: assign_name_cases)
    case kept
    then show ?thesis using ih es by auto
  next
    case (assigned v)
    have "set (st_codepoints st1) \<subseteq> insert (snd fn, v) (set (st_codepoints st))"
      using assigned(4) set_prop_subset [of "st_codepoints st" "snd fn" v] by simp
    then show ?thesis using ih es assigned(1,5) by auto
  qed
qed

section \<open>Uniqueness of codepoints\<close>

text \<open>
  C1, as the code has it. The override entries are stored as they are, so two names that
  are given the same codepoint keep it (see the counterexample). When no two names of
  the override object share a value, no two names of the final table do: the table has
  no value twice, and a value determines its name. The table exists whenever the
  numbers of the request are in the range where the increment is exact.
\<close>

theorem C1_unique_codepoints:
  assumes "\<forall>e1\<in>set (overrides opts). \<forall>e2\<in>set (overrides opts). snd e1 = snd e2 \<longrightarrow> fst e1 = fst e2"
  shows "(\<forall>tbl. final_codepoints parse_name opts = Some tbl \<longrightarrow>
      distinct (map snd tbl) \<and>
      (\<forall>n1 n2 v. map_of tbl n1 = Some v \<and> map_of tbl n2 = Some v \<longrightarrow> n1 = n2))
    \<and> (in_exact_range opts \<longrightarrow> (\<exists>tbl. final_codepoints parse_name opts = Some tbl))"
proof -
  let ?seed = "seed_codepoints (overrides opts)"
  have sk: "distinct (map fst ?seed)"
    by (rule seed_distinct_keys)
  have "\<forall>e1\<in>set ?seed. \<forall>e2\<in>set ?seed. snd e1 = snd e2 \<longrightarrow> fst e1 = fst e2"
    using assms seed_subset [of "overrides opts"] by blast
  with sk have sv: "distinct (map snd ?seed)"
    by (rule distinct_values_of_inj)
  have v: "distinct (map snd tbl)" if t: "final_codepoints parse_name opts = Some tbl" for tbl
  proof -
    from t obtain st' where a: "assign_names (resolved parse_name opts) (init_state opts) = Some st'"
      and b: "st_codepoints st' = tbl"
      using final_table_state by blast
    have "distinct (map snd (st_codepoints st'))"
      using a by (rule assign_names_distinct_values) (simp add: init_state_def sv)
    then show ?thesis using b by simp
  qed
  have u: "n1 = n2"
    if "final_codepoints parse_name opts = Some tbl"
      and "map_of tbl n1 = Some v" and "map_of tbl n2 = Some v" for tbl n1 n2 v
    using map_of_inj_of_distinct [OF v [OF that(1)] that(2,3)] .
  have r: "in_exact_range opts \<longrightarrow> (\<exists>tbl. final_codepoints parse_name opts = Some tbl)"
    using final_codepoints_returns [of opts parse_name] by simp
  show ?thesis
  proof (intro conjI allI impI)
    fix tbl assume "final_codepoints parse_name opts = Some tbl"
    then show "distinct (map snd tbl)" by (rule v)
  next
    fix tbl n1 n2 v
    assume "final_codepoints parse_name opts = Some tbl"
      and "map_of tbl n1 = Some v \<and> map_of tbl n2 = Some v"
    then show "n1 = n2" using u by blast
  next
    assume "in_exact_range opts"
    then show "\<exists>tbl. final_codepoints parse_name opts = Some tbl" using r by simp
  qed
qed

theorem C1_unique_codepoints_witness:
  "final_codepoints before_dot
     ((request [''c.svg'', ''a.svg''])\<lparr>codepoints := Some [(''a'', 65), (''b'', 66)]\<rparr>)
     = Some [(''a'', 65), (''b'', 66), (''c'', 0xf102)]
   \<and> distinct (map snd [(''a'', 65), (''b'', 66), (''c'', 0xf102 :: int)])
   \<and> in_exact_range ((request [''c.svg'', ''a.svg''])\<lparr>codepoints := Some [(''a'', 65), (''b'', 66)]\<rparr>)"
proof -
  let ?r = "(request [''c.svg'', ''a.svg''])\<lparr>codepoints := Some [(''a'', 65), (''b'', 66)]\<rparr>"
  have h: "\<forall>e1\<in>set (overrides ?r). \<forall>e2\<in>set (overrides ?r). snd e1 = snd e2 \<longrightarrow> fst e1 = fst e2"
    by (simp add: overrides_def request_def)
  have t: "final_codepoints before_dot ?r = Some [(''a'', 65), (''b'', 66), (''c'', 0xf102)]"
    by (simp add: alloc_eval)
  have r: "in_exact_range ?r"
    by (simp add: in_exact_range_def start_def overrides_def request_def DEFAULT_START_CODEPOINT_def)
  show ?thesis
    using C1_unique_codepoints [OF h, of before_dot] t r by simp
qed

theorem C1_counterexample:
  "final_codepoints before_dot
     ((request [])\<lparr>codepoints := Some [(''a'', 65), (''b'', 65)]\<rparr>)
     = Some [(''a'', 65), (''b'', 65)]
   \<and> map_of [(''a'', 65 :: int), (''b'', 65)] ''a'' = Some 65
   \<and> map_of [(''a'', 65 :: int), (''b'', 65)] ''b'' = Some 65
   \<and> ''a'' \<noteq> ''b''
   \<and> \<not> distinct (map snd [(''a'', 65 :: int), (''b'', 65)])"
  by (simp add: alloc_eval)

section \<open>Sequential assignment\<close>

text \<open>
  C3. With starting codepoint 0xf101, the files a.svg, b.svg, c.svg and no overrides, the
  table is a: 0xf102, b: 0xf103, c: 0xf104. In every request whose starting codepoint is
  in the range where the increment is exact (from \<open>-2^53\<close> to \<open>2^53 - 1\<close>), each value the
  allocator hands out is greater than the starting codepoint, which is therefore never
  assigned; and the values exist whenever the numbers of the request are in that range.
\<close>

theorem C3_sequential_assignment:
  "final_codepoints before_dot
     ((request [''a.svg'', ''b.svg'', ''c.svg''])\<lparr>startCodepoint := Some 0xf101\<rparr>)
     = Some [(''a'', 0xf102), (''b'', 0xf103), (''c'', 0xf104)]
   \<and> (\<forall>vs. auto_values parse_name opts = Some vs \<and> - (2 ^ 53) \<le> start opts \<and> start opts < 2 ^ 53
        \<longrightarrow> (\<forall>v\<in>set vs. start opts < v))
   \<and> (in_exact_range opts \<longrightarrow> (\<exists>vs. auto_values parse_name opts = Some vs))"
proof -
  have gt: "\<forall>v\<in>set vs. start opts < v"
    if a: "auto_values parse_name opts = Some vs" and lo: "- (2 ^ 53) \<le> start opts"
      and hi: "start opts < 2 ^ 53" for vs
  proof
    fix v assume v: "v \<in> set vs"
    from a obtain es where es: "auto_assigned (resolved parse_name opts) (init_state opts) = Some es"
      and vs: "vs = map snd es"
      by (auto simp: auto_values_def)
    from v vs obtain e where e: "e \<in> set es" and ev: "snd e = v" by auto
    have "js_inc (currentCodepoint (init_state opts)) \<le> snd e"
      using es e by (rule auto_assigned_ge)
    moreover have "js_inc (start opts) = start opts + 1"
      using lo hi by (rule js_inc_exact)
    ultimately show "start opts < v"
      using ev by (simp add: init_state_def)
  qed
  have ex: "final_codepoints before_dot
     ((request [''a.svg'', ''b.svg'', ''c.svg''])\<lparr>startCodepoint := Some 0xf101\<rparr>)
     = Some [(''a'', 0xf102), (''b'', 0xf103), (''c'', 0xf104)]"
    by (simp add: alloc_eval)
  show ?thesis
    using gt ex auto_values_returns [of opts parse_name] by blast
qed

theorem C3_sequential_assignment_witness:
  "auto_values before_dot ((request [''a.svg'', ''b.svg'', ''c.svg''])\<lparr>startCodepoint := Some 0xf101\<rparr>)
     = Some [0xf102, 0xf103, 0xf104]
   \<and> start ((request [''a.svg'', ''b.svg'', ''c.svg''])\<lparr>startCodepoint := Some 0xf101\<rparr>) = 0xf101
   \<and> in_exact_range ((request [''a.svg'', ''b.svg'', ''c.svg''])\<lparr>startCodepoint := Some 0xf101\<rparr>)
   \<and> list_all (\<lambda>v. 0xf101 < v) [0xf102, 0xf103, 0xf104 :: int]"
proof -
  let ?r = "(request [''a.svg'', ''b.svg'', ''c.svg''])\<lparr>startCodepoint := Some 0xf101\<rparr>"
  have a: "auto_values before_dot ?r = Some [0xf102, 0xf103, 0xf104]"
    by (simp add: auto_eval)
  have s: "start ?r = 0xf101"
    by (simp add: start_def request_def)
  have r: "in_exact_range ?r"
    by (simp add: in_exact_range_def start_def overrides_def request_def)
  show ?thesis
    using C3_sequential_assignment [of before_dot ?r] a s r by simp
qed

section \<open>Order of the assigned values and occupied values\<close>

lemma auto_values_assigned:
  "auto_values parse_name opts = Some vs \<Longrightarrow>
   \<exists>es. auto_assigned (resolved parse_name opts) (init_state opts) = Some es \<and> vs = map snd es"
  by (auto simp: auto_values_def)

text \<open>
  C4. In every request the auto-assigned values are non-decreasing in file order, and
  they increase strictly while they stay in the range where the increment is exact;
  \<open>newCodepoint\<close> returns a value, not below the cursor, that no entry of the table has at
  that moment; no auto-assigned value equals an override value that stands in the
  table; and every entry of the final table is a stored override or an auto-assigned
  value. The values exist whenever the numbers of the request are in the exact range.
  With the override a: 0xf102, start 0xf101 and the files a.svg, b.svg, the name b
  receives 0xf103.
\<close>

theorem C4_monotone_and_skips_occupied:
  "(\<forall>vs. auto_values parse_name opts = Some vs \<longrightarrow> sorted vs)
   \<and> (\<forall>vs. auto_values parse_name opts = Some vs \<and> - (2 ^ 53) \<le> start opts
          \<and> (\<forall>v\<in>set vs. v < 2 ^ 53) \<longrightarrow> sorted_wrt (<) vs)
   \<and> (\<forall>c st'. newCodepoint st = Some (c, st') \<longrightarrow>
          c \<notin> snd ` set (st_codepoints st) \<and> currentCodepoint st \<le> c)
   \<and> (\<forall>vs tbl. auto_values parse_name opts = Some vs \<and> final_codepoints parse_name opts = Some tbl
        \<longrightarrow> (\<forall>v\<in>set vs. \<forall>ov\<in>set (seed_codepoints (overrides opts)).
              map_of tbl (fst ov) = Some (snd ov) \<longrightarrow> v \<noteq> snd ov))
   \<and> (\<forall>es tbl. auto_assigned (resolved parse_name opts) (init_state opts) = Some es
          \<and> final_codepoints parse_name opts = Some tbl
        \<longrightarrow> set tbl \<subseteq> set (seed_codepoints (overrides opts)) \<union> set es)
   \<and> (in_exact_range opts \<longrightarrow> (\<exists>vs. auto_values parse_name opts = Some vs))
   \<and> final_codepoints before_dot
        ((request [''a.svg'', ''b.svg''])
           \<lparr>startCodepoint := Some 0xf101, codepoints := Some [(''a'', 0xf102)]\<rparr>)
       = Some [(''a'', 0xf102), (''b'', 0xf103)]"
proof -
  have nondecreasing: "sorted vs" if "auto_values parse_name opts = Some vs" for vs
    using auto_values_assigned [OF that] auto_assigned_sorted by blast
  have strict: "sorted_wrt (<) vs"
    if a: "auto_values parse_name opts = Some vs" and lo: "- (2 ^ 53) \<le> start opts"
      and hi: "\<forall>v\<in>set vs. v < 2 ^ 53" for vs
  proof -
    from a obtain es where es: "auto_assigned (resolved parse_name opts) (init_state opts) = Some es"
      and vs: "vs = map snd es"
      using auto_values_assigned by blast
    have "sorted_wrt (<) (map snd es)"
      using es by (rule auto_assigned_strict) (use lo hi vs in \<open>simp_all add: init_state_def\<close>)
    then show ?thesis using vs by simp
  qed
  have fresh: "c \<notin> snd ` set (st_codepoints st) \<and> currentCodepoint st \<le> c"
    if "newCodepoint st = Some (c, st')" for c st'
    using newCodepoint_Some(1,2) [OF that] js_inc_ge [of "currentCodepoint st"] by simp
  have standing: "v \<noteq> snd ov"
    if a: "auto_values parse_name opts = Some vs" and t: "final_codepoints parse_name opts = Some tbl"
      and v: "v \<in> set vs" and ov: "ov \<in> set (seed_codepoints (overrides opts))"
      and fin: "map_of tbl (fst ov) = Some (snd ov)" for vs tbl v ov
  proof -
    from a obtain es where es: "auto_assigned (resolved parse_name opts) (init_state opts) = Some es"
      and vs: "vs = map snd es"
      using auto_values_assigned by blast
    from t obtain st' where s: "assign_names (resolved parse_name opts) (init_state opts) = Some st'"
      and tb: "st_codepoints st' = tbl"
      using final_table_state by blast
    from v vs obtain e where e: "e \<in> set es" and ev: "snd e = v" by auto
    have "map_of (seed_codepoints (overrides opts)) (fst ov) = Some (snd ov)"
      using ov seed_distinct_keys [of "overrides opts"] by simp
    then have before: "map_of (st_codepoints (init_state opts)) (fst ov) = Some (snd ov)"
      by (simp add: init_state_def)
    have after: "map_of (st_codepoints st') (fst ov) = Some (snd ov)"
      using fin tb by simp
    show ?thesis
      using standing_value_not_assigned [OF s es before after e] ev by simp
  qed
  have entries: "set tbl \<subseteq> set (seed_codepoints (overrides opts)) \<union> set es"
    if es: "auto_assigned (resolved parse_name opts) (init_state opts) = Some es"
      and t: "final_codepoints parse_name opts = Some tbl" for es tbl
  proof -
    from t obtain st' where s: "assign_names (resolved parse_name opts) (init_state opts) = Some st'"
      and tb: "st_codepoints st' = tbl"
      using final_table_state by blast
    show ?thesis
      using assign_names_entries [OF s es] tb by (simp add: init_state_def)
  qed
  have returns: "in_exact_range opts \<longrightarrow> (\<exists>vs. auto_values parse_name opts = Some vs)"
    using auto_values_returns [of opts parse_name] by simp
  have example: "final_codepoints before_dot
        ((request [''a.svg'', ''b.svg''])
           \<lparr>startCodepoint := Some 0xf101, codepoints := Some [(''a'', 0xf102)]\<rparr>)
       = Some [(''a'', 0xf102), (''b'', 0xf103)]"
    by (simp add: alloc_eval)
  have c1: "\<forall>vs. auto_values parse_name opts = Some vs \<longrightarrow> sorted vs"
    using nondecreasing by blast
  have c2: "\<forall>vs. auto_values parse_name opts = Some vs \<and> - (2 ^ 53) \<le> start opts
          \<and> (\<forall>v\<in>set vs. v < 2 ^ 53) \<longrightarrow> sorted_wrt (<) vs"
    using strict by blast
  have c3: "\<forall>c st'. newCodepoint st = Some (c, st') \<longrightarrow>
          c \<notin> snd ` set (st_codepoints st) \<and> currentCodepoint st \<le> c"
    using fresh by blast
  have c4: "\<forall>vs tbl. auto_values parse_name opts = Some vs \<and> final_codepoints parse_name opts = Some tbl
        \<longrightarrow> (\<forall>v\<in>set vs. \<forall>ov\<in>set (seed_codepoints (overrides opts)).
              map_of tbl (fst ov) = Some (snd ov) \<longrightarrow> v \<noteq> snd ov)"
  proof (intro allI impI ballI)
    fix vs tbl v ov
    assume "auto_values parse_name opts = Some vs \<and> final_codepoints parse_name opts = Some tbl"
      and "v \<in> set vs" and "ov \<in> set (seed_codepoints (overrides opts))"
      and "map_of tbl (fst ov) = Some (snd ov)"
    then show "v \<noteq> snd ov" using standing [of vs tbl v ov] by simp
  qed
  have c5: "\<forall>es tbl. auto_assigned (resolved parse_name opts) (init_state opts) = Some es
          \<and> final_codepoints parse_name opts = Some tbl
        \<longrightarrow> set tbl \<subseteq> set (seed_codepoints (overrides opts)) \<union> set es"
    using entries by blast
  show ?thesis
    by (intro conjI c1 c2 c3 c4 c5 returns example)
qed

theorem C4_monotone_and_skips_occupied_witness:
  "auto_values before_dot
     ((request [''a.svg'', ''b.svg''])
        \<lparr>startCodepoint := Some 0xf101, codepoints := Some [(''a'', 0xf102)]\<rparr>) = Some [0xf103]
   \<and> seed_codepoints (overrides
     ((request [''a.svg'', ''b.svg''])
        \<lparr>startCodepoint := Some 0xf101, codepoints := Some [(''a'', 0xf102)]\<rparr>)) = [(''a'', 0xf102)]
   \<and> in_exact_range
     ((request [''a.svg'', ''b.svg''])
        \<lparr>startCodepoint := Some 0xf101, codepoints := Some [(''a'', 0xf102)]\<rparr>)
   \<and> sorted [0xf103 :: int]
   \<and> (0xf103 :: int) \<noteq> 0xf102"
proof -
  let ?r = "(request [''a.svg'', ''b.svg''])
        \<lparr>startCodepoint := Some 0xf101, codepoints := Some [(''a'', 0xf102)]\<rparr>"
  have a: "auto_values before_dot ?r = Some [0xf103]"
    by (simp add: auto_eval)
  have s: "seed_codepoints (overrides ?r) = [(''a'', 0xf102)]"
    by (simp add: alloc_eval)
  have r: "in_exact_range ?r"
    by (simp add: in_exact_range_def start_def overrides_def request_def)
  have "sorted [0xf103 :: int]"
    using C4_monotone_and_skips_occupied [of before_dot ?r "init_state ?r"] a by simp
  then show ?thesis
    using a s r by simp
qed

section \<open>Overrides and the test for a missing entry\<close>

text \<open>
  C2. The override five: 65 is kept whatever the order of the files. An override to
  the codepoint 0 is not: line 252 tests \<open>!codepoints[name]\<close>, which is true for a stored
  0 as for a missing entry, so the name of a file overridden to 0 is assigned the next
  free codepoint instead.
\<close>

theorem C2_zero_override_is_replaced:
  "final_codepoints before_dot ((request [''a.svg''])\<lparr>codepoints := Some [(''a'', 0)]\<rparr>)
     = Some [(''a'', 0xf102)]
   \<and> final_codepoints before_dot
       ((request [''b.svg'', ''five.svg'', ''a.svg''])\<lparr>codepoints := Some [(''five'', 65)]\<rparr>)
     = Some [(''five'', 65), (''b'', 0xf102), (''a'', 0xf103)]
   \<and> final_codepoints before_dot
       ((request [''five.svg'', ''a.svg'', ''b.svg''])\<lparr>codepoints := Some [(''five'', 65)]\<rparr>)
     = Some [(''five'', 65), (''a'', 0xf102), (''b'', 0xf103)]"
  by (simp add: alloc_eval)

section \<open>Renames\<close>

text \<open>
  C5. The files x.svg and y.svg, both renamed to icon, give one entry keyed icon. Renamed
  to constructor they give no entry at all: \<open>codepoints["constructor"]\<close> reads the member
  inherited from \<open>Object.prototype\<close>, which is not falsy, so line 253 is skipped; the run
  then fails at \<open>String.fromCodePoint\<close> and writes nothing.
\<close>

theorem C5_rename_to_inherited_member:
  "final_codepoints before_dot
     ((request [''x.svg'', ''y.svg''])\<lparr>renames := Some [(''x'', ''icon''), (''y'', ''icon'')]\<rparr>)
     = Some [(''icon'', 0xf102)]
   \<and> final_codepoints before_dot
     ((request [''x.svg'', ''y.svg''])
        \<lparr>renames := Some [(''x'', ''constructor''), (''y'', ''constructor'')]\<rparr>)
     = Some []
   \<and> generate demo_env
     ((request [''x.svg'', ''y.svg''])
        \<lparr>renames := Some [(''x'', ''constructor''), (''y'', ''constructor'')]\<rparr>)
     = Some \<lparr>rejections = [RangeError], written = []\<rparr>"
  by (simp add: run_eval)

section \<open>The end of the exact range\<close>

text \<open>
  At the starting codepoint \<open>2^53\<close> the increment is absorbed: the first file is assigned
  the starting codepoint itself, and for a second file \<open>newCodepoint\<close> never returns, so
  there is no table and the run has no outcome.
\<close>

theorem X6_absorbed_increment:
  "final_codepoints before_dot ((request [''a.svg''])\<lparr>startCodepoint := Some 9007199254740992\<rparr>)
     = Some [(''a'', 9007199254740992)]
   \<and> final_codepoints before_dot
       ((request [''a.svg'', ''b.svg''])\<lparr>startCodepoint := Some 9007199254740992\<rparr>) = None
   \<and> generate (demo_env\<lparr>existsSync := (\<lambda>d. True)\<rparr>)
       ((request [''a.svg'', ''b.svg''])\<lparr>startCodepoint := Some 9007199254740992\<rparr>) = None"
proof -
  have a: "do_while [] 9007199254740992 = Some 9007199254740992"
    by (simp add: do_while.simps js_inc_def)
  have b: "do_while [9007199254740992] 9007199254740992 = None"
    by (rule do_while_absorbed) (simp_all add: js_inc_def)
  have c: "assign_codepoints before_dot
       ((request [''a.svg'', ''b.svg''])\<lparr>startCodepoint := Some 9007199254740992\<rparr>) = None"
    by (simp add: assign_codepoints_def resolved_def request_def init_state_def overrides_def start_def
        seed_codepoints_def assign_name_def resolve_name_def before_dot_def get_prop_def
        object_prototype_keys_def falsy_def newCodepoint_def object_values_def object_entries_def
        set_prop_def is_array_index_def is_digit_def a b)
  have d: "final_codepoints before_dot ((request [''a.svg''])\<lparr>startCodepoint := Some 9007199254740992\<rparr>)
     = Some [(''a'', 9007199254740992)]"
    by (simp add: final_codepoints_def assign_codepoints_def resolved_def request_def init_state_def
        overrides_def start_def seed_codepoints_def assign_name_def resolve_name_def before_dot_def
        get_prop_def object_prototype_keys_def falsy_def newCodepoint_def object_values_def
        object_entries_def set_prop_def is_array_index_def is_digit_def a)
  show ?thesis
    using c d by (simp add: final_codepoints_def generate_def generateSvgFont_def demo_env_def)
qed

section \<open>Hexadecimal rendering\<close>

lemma hex_digit_cases:
  assumes "n < 16" and "\<And>k. k \<in> {0,1,2,3,4,5,6,7,8,9,10,11,12,13,14,15::nat} \<Longrightarrow> P k"
  shows "P n"
proof -
  have "n \<in> {0,1,2,3,4,5,6,7,8,9,10,11,12,13,14,15::nat}"
    using assms(1) by simp arith
  then show ?thesis by (rule assms(2))
qed

lemma hex_val_digit: "n < 16 \<Longrightarrow> hex_val (hex_digits ! n) = n"
  by (erule hex_digit_cases) (auto simp: hex_val_def hex_digits_def is_digit_def)

lemma hex_digit_mem: "n < 16 \<Longrightarrow> hex_digits ! n \<in> set hex_digits"
  by (rule nth_mem) (simp add: hex_digits_def)

lemma hex_digit_zero: "n < 16 \<Longrightarrow> (hex_digits ! n = CHR ''0'') = (n = 0)"
  by (erule hex_digit_cases) (auto simp: hex_digits_def)

lemma to_hex_small: "n < 16 \<Longrightarrow> to_hex n = [hex_digits ! n]"
  by (subst to_hex.simps) simp

lemma to_hex_big: "\<not> n < 16 \<Longrightarrow> to_hex n = to_hex (n div 16) @ [hex_digits ! (n mod 16)]"
  by (subst to_hex.simps) simp

lemma to_hex_chars: "set (to_hex n) \<subseteq> set hex_digits"
proof (induction n rule: to_hex.induct)
  case (1 n)
  show ?case
  proof (cases "n < 16")
    case True
    then show ?thesis using hex_digit_mem [of n] by (simp add: to_hex_small)
  next
    case False
    then show ?thesis using 1 hex_digit_mem [of "n mod 16"] by (simp add: to_hex_big)
  qed
qed

lemma to_hex_nonempty: "to_hex n \<noteq> []"
  by (cases "n < 16") (simp_all add: to_hex_small to_hex_big)

lemma to_hex_hd: "(hd (to_hex n) = CHR ''0'') = (n = 0)"
proof (induction n rule: to_hex.induct)
  case (1 n)
  show ?case
  proof (cases "n < 16")
    case True
    then show ?thesis using hex_digit_zero [of n] by (simp add: to_hex_small)
  next
    case False
    then have "n div 16 \<noteq> 0" by (simp add: div_eq_0_iff)
    then show ?thesis using False 1 to_hex_nonempty [of "n div 16"]
      by (simp add: to_hex_big)
  qed
qed

lemma hex_value_snoc: "hex_value (s @ [c]) = 16 * hex_value s + hex_val c"
  by (simp add: hex_value_def)

lemma hex_value_to_hex: "hex_value (to_hex n) = n"
proof (induction n rule: to_hex.induct)
  case (1 n)
  show ?case
  proof (cases "n < 16")
    case True
    then show ?thesis by (simp add: to_hex_small hex_value_def hex_val_digit)
  next
    case False
    then show ?thesis using 1 by (simp add: to_hex_big hex_value_snoc hex_val_digit)
  qed
qed

section \<open>The font-face declaration\<close>







section \<open>The icon rules\<close>

lemma length_object_entries: "length (object_entries tbl) = length tbl"
  using sum_length_filter_compl [of "\<lambda>kv. is_array_index (fst kv)" tbl]
  by (simp add: object_entries_def)

lemma object_entries_no_index:
  "\<forall>e\<in>set tbl. \<not> is_array_index (fst e) \<Longrightarrow> object_entries tbl = tbl"
proof -
  assume a: "\<forall>e\<in>set tbl. \<not> is_array_index (fst e)"
  then have "filter (\<lambda>kv. is_array_index (fst kv)) tbl = []"
    by (simp add: filter_empty_conv)
  moreover have "filter (\<lambda>kv. \<not> is_array_index (fst kv)) tbl = tbl"
    using a by (simp add: filter_id_conv)
  ultimately show ?thesis by (simp add: object_entries_def)
qed

lemma object_entries_indices:
  "filter (\<lambda>kv. is_array_index (fst kv)) (object_entries tbl)
     = sort_key (\<lambda>kv. dec_value (fst kv)) (filter (\<lambda>kv. is_array_index (fst kv)) tbl)"
  by (simp add: object_entries_def filter_sort)

lemma object_entries_split:
  "object_entries tbl
     = filter (\<lambda>kv. is_array_index (fst kv)) (object_entries tbl)
       @ filter (\<lambda>kv. \<not> is_array_index (fst kv)) tbl"
  by (simp add: object_entries_indices) (simp add: object_entries_def)

lemma object_entries_indices_sorted:
  "sorted (map (\<lambda>kv. dec_value (fst kv)) (filter (\<lambda>kv. is_array_index (fst kv)) (object_entries tbl)))"
  by (simp add: object_entries_indices)

text \<open>
  C7, as the code has it. The stylesheet is the font-face declaration, the base rule and
  one rule per entry of the table, joined by line feeds. Rule \<open>i\<close> is
  the selector, a dot, the class prefix, the name, and \<open>:before\<close> with the content
  property set to a backslash and the hexadecimal codepoint, for entry \<open>i\<close> of
  \<open>Object.entries(codepoints)\<close>; the codepoint is written with the digits 0-9 and a-f, with
  no leading zero (0 itself is \<open>0\<close>), and reads back as the codepoint. The entries are
  those of the table, in the order of \<open>Object.entries\<close>: the names that are array indices
  first, in ascending numeric order, then the other names in insertion order. A table
  without such names is listed in insertion order.
\<close>

theorem C7_icon_rules:
  "generateCssContent opts tbl = join nl ([font_face opts, base_rule opts] @ icon_rules opts tbl)
   \<and> length (icon_rules opts tbl) = length tbl
   \<and> set (object_entries tbl) = set tbl
   \<and> (\<forall>i<length tbl. icon_rules opts tbl ! i
        = selector opts @ ''.'' @ class_prefix opts @ fst (object_entries tbl ! i)
          @ '':before { content: '' @ dquote @ [CHR 0x5C]
          @ toString16 (snd (object_entries tbl ! i)) @ dquote @ ''; }'')
   \<and> toString16 v = (if v < 0 then ''-'' else []) @ to_hex (nat \<bar>v\<bar>)
   \<and> set (to_hex n) \<subseteq> set ''0123456789abcdef''
   \<and> to_hex n \<noteq> []
   \<and> (hd (to_hex n) = CHR ''0'' \<longleftrightarrow> n = 0)
   \<and> hex_value (to_hex n) = n
   \<and> object_entries tbl
       = filter (\<lambda>kv. is_array_index (fst kv)) (object_entries tbl)
         @ filter (\<lambda>kv. \<not> is_array_index (fst kv)) tbl
   \<and> sorted (map (\<lambda>kv. dec_value (fst kv)) (filter (\<lambda>kv. is_array_index (fst kv)) (object_entries tbl)))
   \<and> set (filter (\<lambda>kv. is_array_index (fst kv)) (object_entries tbl))
       = set (filter (\<lambda>kv. is_array_index (fst kv)) tbl)
   \<and> ((\<forall>e\<in>set tbl. \<not> is_array_index (fst e)) \<longrightarrow> object_entries tbl = tbl)"
proof -
  have shape: "\<forall>i<length tbl. icon_rules opts tbl ! i
        = selector opts @ ''.'' @ class_prefix opts @ fst (object_entries tbl ! i)
          @ '':before { content: '' @ dquote @ [CHR 0x5C]
          @ toString16 (snd (object_entries tbl ! i)) @ dquote @ ''; }''"
    by (simp add: icon_rules_def length_object_entries icon_rule_def Let_def)
  have hex: "toString16 v = (if v < 0 then ''-'' else []) @ to_hex (nat \<bar>v\<bar>)"
    by (simp add: toString16_def)
  have chars: "set (to_hex n) \<subseteq> set ''0123456789abcdef''"
    using to_hex_chars [of n] by (simp add: hex_digits_def)
  have idx: "set (filter (\<lambda>kv. is_array_index (fst kv)) (object_entries tbl))
       = set (filter (\<lambda>kv. is_array_index (fst kv)) tbl)"
    by (simp add: set_object_entries)
  have len: "length (icon_rules opts tbl) = length tbl"
    by (simp add: icon_rules_def length_object_entries)
  have css: "generateCssContent opts tbl = join nl ([font_face opts, base_rule opts] @ icon_rules opts tbl)"
    by (simp add: generateCssContent_def)
  show ?thesis
    using css len shape hex chars idx set_object_entries [of tbl]
      to_hex_nonempty [of n] to_hex_hd [of n] hex_value_to_hex [of n]
      object_entries_split [of tbl] object_entries_indices_sorted [of tbl]
      object_entries_no_index [of tbl]
    by blast
qed

theorem C7_counterexample:
  "final_codepoints before_dot (request [''1.svg'', ''0.svg''])
     = Some [(''1'', 0xf102), (''0'', 0xf103)]
   \<and> icon_rules (request [''1.svg'', ''0.svg'']) [(''1'', 0xf102), (''0'', 0xf103)]
      = [''.icon.icon-0:before { content: '' @ dquote @ [CHR 0x5C] @ ''f103'' @ dquote @ ''; }'',
         ''.icon.icon-1:before { content: '' @ dquote @ [CHR 0x5C] @ ''f102'' @ dquote @ ''; }'']
   \<and> icon_rules (request [''1.svg'', ''0.svg'']) [(''1'', 0xf102), (''0'', 0xf103)]
      \<noteq> map (icon_rule (request [''1.svg'', ''0.svg''])) [(''1'', 0xf102), (''0'', 0xf103)]"
proof -
  have t: "final_codepoints before_dot (request [''1.svg'', ''0.svg''])
     = Some [(''1'', 0xf102), (''0'', 0xf103)]"
    by (simp add: alloc_eval)
  show ?thesis
    unfolding t by (simp add: css_eval request_def is_array_index_def is_digit_def dec_value_def object_entries_def)
qed

theorem C7_icon_rules_witness:
  "icon_rules (request []) [(''b'', 0xf102), (''a'', 10)]
     = [''.icon.icon-b:before { content: '' @ dquote @ [CHR 0x5C] @ ''f102'' @ dquote @ ''; }'',
        ''.icon.icon-a:before { content: '' @ dquote @ [CHR 0x5C] @ ''a'' @ dquote @ ''; }'']
   \<and> list_all (\<lambda>e. \<not> is_array_index (fst e)) [(''b'', 0xf102), (''a'', 10 :: int)]
   \<and> object_entries [(''b'', 0xf102), (''a'', 10 :: int)] = [(''b'', 0xf102), (''a'', 10)]"
proof -
  let ?t = "[(''b'', 0xf102), (''a'', 10 :: int)]"
  have h: "\<forall>e\<in>set ?t. \<not> is_array_index (fst e)"
    by (simp add: is_array_index_def is_digit_def)
  have o: "object_entries ?t = ?t"
    using C7_icon_rules [of "request []" ?t 0 0] h by blast
  have r: "icon_rules (request []) ?t
        = [''.icon.icon-b:before { content: '' @ dquote @ [CHR 0x5C] @ ''f102'' @ dquote @ ''; }'',
           ''.icon.icon-a:before { content: '' @ dquote @ [CHR 0x5C] @ ''a'' @ dquote @ ''; }'']"
    by (simp add: icon_rules_def o) (simp add: css_eval request_def)
  show ?thesis using h o r by (simp add: list_all_iff)
qed

section \<open>The files written\<close>

lemma lefts_empty_rights:
  "lefts (map f xs) = [] \<Longrightarrow> map fst (rights (map f xs)) = map g xs"
  if "\<And>x w. f x = Inr w \<Longrightarrow> fst w = g x"
  using that
proof (induction xs)
  case Nil
  then show ?case by simp
next
  case (Cons x xs)
  then show ?case by (cases "f x") auto
qed

lemma write_type_path: "write_type env opts css svg ttf t = Inr w \<Longrightarrow> fst w = out_path env opts t"
  by (auto simp: write_type_def out_path_def Let_def split: sum.splits if_splits)

lemma lefts_mem: "Inl e \<in> set xs \<Longrightarrow> e \<in> set (lefts xs)"
  by (induction xs rule: lefts.induct) auto

lemma data_unknown:
  "t \<notin> {''css'', ''ttf'', ''woff'', ''woff2'', ''svg''} \<Longrightarrow> data env css svg ttf t = Inl UnknownTypeError"
  by (simp add: data_def)

lemma write_type_unknown:
  "t \<notin> {''css'', ''ttf'', ''woff'', ''woff2'', ''svg''} \<Longrightarrow> write_type env opts css svg ttf t = Inl UnknownTypeError"
  by (simp add: write_type_def data_unknown)

lemma generate_writer:
  assumes "generate env opts = Some out" and "rejections out = []"
  obtains svg cps ttf where "generateSvgFont env opts = Some (Inr (svg, cps))"
    and "Svg2Ttf env svg = Inr ttf"
    and "out = \<lparr>rejections = lefts (map (write_type env opts (generateCssContent opts cps) svg ttf) (output_types opts)),
                 written = rights (map (write_type env opts (generateCssContent opts cps) svg ttf) (output_types opts))\<rparr>"
  using assms
  by (auto simp: generate_def Let_def split: if_splits option.splits sum.splits prod.splits)

lemma generateSvgFont_table:
  "generateSvgFont env opts = Some (Inr (svg, cps)) \<Longrightarrow>
   final_codepoints (path_parse_name env) opts = Some cps"
  by (auto simp: generateSvgFont_def final_codepoints_def split: option.splits sum.splits)

lemma write_type_css:
  "write_type env opts css svg ttf ''css'' = Inr w \<Longrightarrow> w = (out_path env opts ''css'', Text css)"
  by (auto simp: write_type_def data_def out_path_def Let_def split: if_splits)

text \<open>
  C8. In every run that succeeds, one file is written for each element of
  \<open>['css', ...types]\<close>, at \<open>path.resolve(dest, fontName + '.' + type)\<close>: the files written
  are the stylesheet and one file per requested type, and the stylesheet, with the text
  generated from the final table, is among them whatever is requested. The requested
  types are \<open>options.types\<close>, and woff2 and woff when \<open>types\<close> is left out.
\<close>

theorem C8_files_written:
  "(\<forall>out. generate env opts = Some out \<and> rejections out = [] \<longrightarrow>
      map fst (written out) = map (out_path env opts) (''css'' # requested_types opts)
      \<and> set (map fst (written out))
          = insert (out_path env opts ''css'') (out_path env opts ` set (requested_types opts))
      \<and> (\<exists>cps. final_codepoints (path_parse_name env) opts = Some cps
            \<and> hd (written out) = (out_path env opts ''css'', Text (generateCssContent opts cps))))
   \<and> succeeds env opts = (\<exists>out. generate env opts = Some out \<and> rejections out = [])
   \<and> out_path env opts t = path_resolve env (dest opts) (fontName opts @ ''.'' @ t)
   \<and> requested_types opts = (case types opts of None \<Rightarrow> [''woff2'', ''woff''] | Some ts \<Rightarrow> ts)"
proof -
  have a: "map fst (written out) = map (out_path env opts) (''css'' # requested_types opts)
      \<and> set (map fst (written out))
          = insert (out_path env opts ''css'') (out_path env opts ` set (requested_types opts))
      \<and> (\<exists>cps. final_codepoints (path_parse_name env) opts = Some cps
            \<and> hd (written out) = (out_path env opts ''css'', Text (generateCssContent opts cps)))"
    if g: "generate env opts = Some out" and r: "rejections out = []" for out
  proof -
    from g r obtain svg cps ttf where f: "generateSvgFont env opts = Some (Inr (svg, cps))"
      and o: "out = \<lparr>rejections = lefts (map (write_type env opts (generateCssContent opts cps) svg ttf) (output_types opts)),
                 written = rights (map (write_type env opts (generateCssContent opts cps) svg ttf) (output_types opts))\<rparr>"
      by (rule generate_writer)
    let ?f = "write_type env opts (generateCssContent opts cps) svg ttf"
    have l: "lefts (map ?f (output_types opts)) = []"
      using o r by simp
    then have m: "map fst (rights (map ?f (output_types opts))) = map (out_path env opts) (output_types opts)"
      by (rule lefts_empty_rights [rotated]) (rule write_type_path)
    then have p: "map fst (written out) = map (out_path env opts) (''css'' # requested_types opts)"
      using o by (simp add: output_types_def)
    obtain w where w: "?f ''css'' = Inr w"
      using l by (cases "?f ''css''") (simp_all add: output_types_def)
    then have "hd (rights (map ?f (output_types opts))) = (out_path env opts ''css'', Text (generateCssContent opts cps))"
      using write_type_css [OF w] by (simp add: output_types_def)
    then have h: "hd (written out) = (out_path env opts ''css'', Text (generateCssContent opts cps))"
      using o by simp
    have s: "set (map fst (written out))
          = insert (out_path env opts ''css'') (out_path env opts ` set (requested_types opts))"
      using p by simp
    show ?thesis
      using p s h generateSvgFont_table [OF f] by blast
  qed
  have b: "succeeds env opts = (\<exists>out. generate env opts = Some out \<and> rejections out = [])"
    by (simp add: succeeds_def split: option.splits)
  have c: "out_path env opts t = path_resolve env (dest opts) (fontName opts @ ''.'' @ t)"
    by (simp add: out_path_def)
  have d: "requested_types opts = (case types opts of None \<Rightarrow> [''woff2'', ''woff''] | Some ts \<Rightarrow> ts)"
    by (simp add: requested_types_def DEFAULT_FILE_OUTPUTS_def split: option.splits)
  have a': "\<forall>out. generate env opts = Some out \<and> rejections out = [] \<longrightarrow>
      map fst (written out) = map (out_path env opts) (''css'' # requested_types opts)
      \<and> set (map fst (written out))
          = insert (out_path env opts ''css'') (out_path env opts ` set (requested_types opts))
      \<and> (\<exists>cps. final_codepoints (path_parse_name env) opts = Some cps
            \<and> hd (written out) = (out_path env opts ''css'', Text (generateCssContent opts cps)))"
    using a by blast
  show ?thesis
    by (intro conjI a' b c d)
qed

theorem C8_files_written_witness:
  "generate demo_env ((request [''a.svg''])\<lparr>types := Some [''ttf'', ''svg'']\<rparr>)
     = Some \<lparr>rejections = [],
             written =
               [(''out/icon.css'',
                 Text (generateCssContent ((request [''a.svg''])\<lparr>types := Some [''ttf'', ''svg'']\<rparr>)
                         [(''a'', 0xf102)])),
                (''out/icon.ttf'', Binary [0]),
                (''out/icon.svg'', Text ''<svg/>'')]\<rparr>
   \<and> succeeds demo_env ((request [''a.svg''])\<lparr>types := Some [''ttf'', ''svg'']\<rparr>)
   \<and> map (out_path demo_env ((request [''a.svg''])\<lparr>types := Some [''ttf'', ''svg'']\<rparr>))
         (''css'' # requested_types ((request [''a.svg''])\<lparr>types := Some [''ttf'', ''svg'']\<rparr>))
       = [''out/icon.css'', ''out/icon.ttf'', ''out/icon.svg'']
   \<and> map fst (written (the (generate demo_env (request [''a.svg'']))))
       = [''out/icon.css'', ''out/icon.woff2'', ''out/icon.woff'']"
proof -
  let ?r = "(request [''a.svg''])\<lparr>types := Some [''ttf'', ''svg'']\<rparr>"
  let ?out = "\<lparr>rejections = [],
             written =
               [(''out/icon.css'', Text (generateCssContent ?r [(''a'', 0xf102)])),
                (''out/icon.ttf'', Binary [0]),
                (''out/icon.svg'', Text ''<svg/>'')]\<rparr>"
  have g: "generate demo_env ?r = Some ?out"
    by (simp add: run_eval)
  have d: "map fst (written (the (generate demo_env (request [''a.svg'']))))
       = [''out/icon.css'', ''out/icon.woff2'', ''out/icon.woff'']"
    by (simp add: run_eval)
  have "map fst (written ?out) = map (out_path demo_env ?r) (''css'' # requested_types ?r)
    \<and> succeeds demo_env ?r"
    using C8_files_written [of demo_env ?r "''css''"] g by simp
  then show ?thesis
    using g d by simp
qed

text \<open>
  C9. When the requested types contain a string that is none of css, ttf, woff, woff2
  and svg, the run does not succeed: the \<open>switch\<close> of the writer reaches its default
  branch for that string and throws, before any converter is called or any file is
  written for it, and when the earlier stages have succeeded that error is among the
  rejections of the run.
\<close>

theorem C9_unknown_type_fails:
  assumes "t \<in> set (requested_types opts)"
    and "t \<notin> {''css'', ''ttf'', ''woff'', ''woff2'', ''svg''}"
  shows "\<not> succeeds env opts
    \<and> data env css svg ttf t = Inl UnknownTypeError
    \<and> ((existsSync env (dest opts) \<or> mkdirSync env (dest opts))
        \<and> generateSvgFont env opts = Some (Inr (svg, cps)) \<and> Svg2Ttf env svg = Inr ttf
        \<longrightarrow> (\<exists>out. generate env opts = Some out \<and> UnknownTypeError \<in> set (rejections out)))"
proof -
  have m: "UnknownTypeError \<in> set (lefts (map (write_type env opts c s b) (output_types opts)))" for c s b
  proof -
    have "Inl UnknownTypeError \<in> set (map (write_type env opts c s b) (output_types opts))"
      using assms write_type_unknown [of t env opts c s b]
      by (force simp: output_types_def)
    then show ?thesis by (rule lefts_mem)
  qed
  have u: "\<exists>out. generate env opts = Some out \<and> UnknownTypeError \<in> set (rejections out)"
    if "existsSync env (dest opts) \<or> mkdirSync env (dest opts)"
      and "generateSvgFont env opts = Some (Inr (svg, cps))" and "Svg2Ttf env svg = Inr ttf"
    using that m [of "generateCssContent opts cps" svg ttf] by (auto simp: generate_def Let_def)
  have n: "\<not> succeeds env opts"
  proof
    assume "succeeds env opts"
    then obtain out where g: "generate env opts = Some out" and r: "rejections out = []"
      by (auto simp: succeeds_def split: option.splits)
    from g r obtain svg' cps' ttf' where
      "out = \<lparr>rejections = lefts (map (write_type env opts (generateCssContent opts cps') svg' ttf') (output_types opts)),
                 written = rights (map (write_type env opts (generateCssContent opts cps') svg' ttf') (output_types opts))\<rparr>"
      by (rule generate_writer)
    then show False
      using r m [of "generateCssContent opts cps'" svg' ttf'] by simp
  qed
  show ?thesis
    using n u assms(2) by (simp add: data_unknown)
qed

theorem C9_unknown_type_fails_witness:
  "''eot'' \<in> set (requested_types ((request [''a.svg''])\<lparr>types := Some [''woff'', ''eot'']\<rparr>))
   \<and> ''eot'' \<notin> {''css'', ''ttf'', ''woff'', ''woff2'', ''svg''}
   \<and> \<not> succeeds demo_env ((request [''a.svg''])\<lparr>types := Some [''woff'', ''eot'']\<rparr>)
   \<and> map_option rejections (generate demo_env ((request [''a.svg''])\<lparr>types := Some [''woff'', ''eot'']\<rparr>))
       = Some [UnknownTypeError]
   \<and> map_option (\<lambda>out. map fst (written out))
        (generate demo_env ((request [''a.svg''])\<lparr>types := Some [''woff'', ''eot'']\<rparr>))
       = Some [''out/icon.css'', ''out/icon.woff'']"
proof -
  let ?r = "(request [''a.svg''])\<lparr>types := Some [''woff'', ''eot'']\<rparr>"
  have a: "''eot'' \<in> set (requested_types ?r)"
    by (simp add: requested_types_def)
  have b: "''eot'' \<notin> {''css'', ''ttf'', ''woff'', ''woff2'', ''svg''}"
    by simp
  have r: "map_option rejections (generate demo_env ?r) = Some [UnknownTypeError]"
    by (simp add: run_eval)
  have w: "map_option (\<lambda>out. map fst (written out)) (generate demo_env ?r)
       = Some [''out/icon.css'', ''out/icon.woff'']"
    by (simp add: run_eval)
  show ?thesis
    using C9_unknown_type_fails [OF a b, of demo_env] a b r w by simp
qed

section \<open>The whole run\<close>

text \<open>
  The run of the request with the files 0.svg and 1.svg and every option left out, in an
  environment where every library call succeeds: the stylesheet, the woff2 and the woff
  file are written, and the stylesheet has the rules of 0 and 1 with different contents.
\<close>

theorem X4_end_to_end:
  "succeeds demo_env (request [''0.svg'', ''1.svg''])
   \<and> map_option (\<lambda>out. map fst (written out)) (generate demo_env (request [''0.svg'', ''1.svg'']))
       = Some [''out/icon.css'', ''out/icon.woff2'', ''out/icon.woff'']
   \<and> final_codepoints before_dot (request [''0.svg'', ''1.svg''])
       = Some [(''0'', 0xf102), (''1'', 0xf103)]
   \<and> icon_rules (request [''0.svg'', ''1.svg'']) [(''0'', 0xf102), (''1'', 0xf103)]
       = [''.icon.icon-0:before { content: '' @ dquote @ [CHR 0x5C] @ ''f102'' @ dquote @ ''; }'',
          ''.icon.icon-1:before { content: '' @ dquote @ [CHR 0x5C] @ ''f103'' @ dquote @ ''; }'']"
proof -
  have t: "final_codepoints before_dot (request [''0.svg'', ''1.svg'']) = Some [(''0'', 0xf102), (''1'', 0xf103)]"
    by (simp add: alloc_eval)
  have a: "succeeds demo_env (request [''0.svg'', ''1.svg''])"
    by (simp add: run_eval)
  have b: "map_option (\<lambda>out. map fst (written out)) (generate demo_env (request [''0.svg'', ''1.svg'']))
       = Some [''out/icon.css'', ''out/icon.woff2'', ''out/icon.woff'']"
    by (simp add: run_eval)
  have c: "icon_rules (request [''0.svg'', ''1.svg'']) [(''0'', 0xf102), (''1'', 0xf103)]
       = [''.icon.icon-0:before { content: '' @ dquote @ [CHR 0x5C] @ ''f102'' @ dquote @ ''; }'',
          ''.icon.icon-1:before { content: '' @ dquote @ [CHR 0x5C] @ ''f103'' @ dquote @ ''; }'']"
    by (simp add: css_eval request_def is_array_index_def is_digit_def dec_value_def object_entries_def)
  show ?thesis
    by (intro conjI t a b c)
qed

text \<open>
  A destination that does not exist and cannot be created fails the run with that error
  and nothing written, whatever the font assembler would have done.
\<close>

theorem X5_destination_failure:
  assumes "\<not> existsSync env (dest opts)" and "\<not> mkdirSync env (dest opts)"
  shows "generate env opts = Some \<lparr>rejections = [FsError], written = []\<rparr>
    \<and> \<not> succeeds env opts
    \<and> generate (env\<lparr>SvgIcons2Font := assembler\<rparr>) opts = generate env opts"
  using assms by (simp add: generate_def succeeds_def)

theorem X5_destination_failure_witness:
  "generate (demo_env\<lparr>mkdirSync := (\<lambda>d. False)\<rparr>) (request [''a.svg''])
     = Some \<lparr>rejections = [FsError], written = []\<rparr>"
proof -
  let ?e = "demo_env\<lparr>mkdirSync := (\<lambda>d. False)\<rparr>"
  have a: "\<not> existsSync ?e (dest (request [''a.svg'']))"
    by (simp add: demo_env_def)
  have b: "\<not> mkdirSync ?e (dest (request [''a.svg'']))"
    by (simp add: demo_env_def)
  show ?thesis
    using X5_destination_failure [OF a b] by simp
qed

section \<open>Overrides without a file\<close>

text \<open>
  C10. An override whose name matches no file stays in the table and has its rule in the
  stylesheet (ghost below). An override named \<open>__proto__\<close> does not: line 246 assigns to
  \<open>codepoints["__proto__"]\<close>, which calls the setter inherited from \<open>Object.prototype\<close>, and
  that setter ignores a number. The entry is in neither the table nor the stylesheet of
  the run, which succeeds.
\<close>

theorem C10_proto_override_is_dropped:
  "final_codepoints before_dot
     ((request [''a.svg''])\<lparr>codepoints := Some [(''__proto__'', 65), (''ghost'', 66)]\<rparr>)
     = Some [(''ghost'', 66), (''a'', 0xf102)]
   \<and> icon_rules ((request [''a.svg''])\<lparr>codepoints := Some [(''__proto__'', 65), (''ghost'', 66)]\<rparr>)
       [(''ghost'', 66), (''a'', 0xf102)]
     = [''.icon.icon-ghost:before { content: '' @ dquote @ [CHR 0x5C] @ ''42'' @ dquote @ ''; }'',
        ''.icon.icon-a:before { content: '' @ dquote @ [CHR 0x5C] @ ''f102'' @ dquote @ ''; }'']
   \<and> succeeds demo_env
       ((request [''a.svg''])\<lparr>codepoints := Some [(''__proto__'', 65), (''ghost'', 66)]\<rparr>)"
proof -
  let ?r = "(request [''a.svg''])\<lparr>codepoints := Some [(''__proto__'', 65), (''ghost'', 66)]\<rparr>"
  have t: "final_codepoints before_dot ?r = Some [(''ghost'', 66), (''a'', 0xf102)]"
    by (simp add: alloc_eval)
  have c: "icon_rules ?r [(''ghost'', 66), (''a'', 0xf102)]
     = [''.icon.icon-ghost:before { content: '' @ dquote @ [CHR 0x5C] @ ''42'' @ dquote @ ''; }'',
        ''.icon.icon-a:before { content: '' @ dquote @ [CHR 0x5C] @ ''f102'' @ dquote @ ''; }'']"
    by (simp add: css_eval request_def is_array_index_def is_digit_def object_entries_def)
  have s: "succeeds demo_env ?r"
    by (simp add: run_eval)
  show ?thesis
    by (intro conjI t c s)
qed

section \<open>Overrides and renames in general\<close>

lemma distinct_keys_object_entries:
  assumes "distinct (map fst obj)"
  shows "distinct (map fst (object_entries obj))"
proof -
  have inj: "inj_on fst (set obj)" and d: "distinct obj"
    using assms by (simp_all add: distinct_map)
  have "distinct (object_entries obj)"
    using d by (auto simp: object_entries_def)
  then show ?thesis
    using inj by (simp add: distinct_map set_object_entries)
qed

lemma fold_set_prop_absent:
  "n \<notin> fst ` set es \<Longrightarrow>
   map_of (fold (\<lambda>entry tbl. set_prop tbl (fst entry) (snd entry)) es tbl) n = map_of tbl n"
  by (induction es arbitrary: tbl) (auto simp: map_of_set_prop_other)

lemma fold_set_prop_present:
  "distinct (map fst es) \<Longrightarrow> (n, c) \<in> set es \<Longrightarrow> n \<noteq> ''__proto__'' \<Longrightarrow>
   map_of (fold (\<lambda>entry tbl. set_prop tbl (fst entry) (snd entry)) es tbl) n = Some c"
proof (induction es arbitrary: tbl)
  case Nil
  then show ?case by simp
next
  case (Cons e es)
  show ?case
  proof (cases "e = (n, c)")
    case True
    then have "n \<notin> fst ` set es" using Cons.prems(1) by auto
    then show ?thesis
      using True Cons.prems(3) by (simp add: fold_set_prop_absent map_of_set_prop_same)
  next
    case False
    then show ?thesis using Cons by auto
  qed
qed

lemma seed_override:
  assumes "distinct (map fst ov)" "(n, c) \<in> set ov" "n \<noteq> ''__proto__''"
  shows "map_of (seed_codepoints ov) n = Some c"
  unfolding seed_codepoints_def
  using assms by (intro fold_set_prop_present) (simp_all add: distinct_keys_object_entries set_object_entries)

lemma set_prop_keys: "fst ` set al \<subseteq> fst ` set (set_prop al k v)"
  by (auto simp: set_prop_def dom_update image_iff Bex_def) 

lemma set_prop_new_key: "k \<noteq> ''__proto__'' \<Longrightarrow> k \<in> fst ` set (set_prop al k v)"
  using map_of_set_prop_same [of k al v] by (metis domI dom_map_of_conv_image_fst)

lemma one_entry_per_key:
  "distinct (map fst al) \<Longrightarrow> n \<in> fst ` set al \<Longrightarrow> length (filter (\<lambda>e. fst e = n) al) = 1"
proof (induction al)
  case Nil
  then show ?case by simp
next
  case (Cons a al)
  show ?case
  proof (cases "fst a = n")
    case True
    then have "n \<notin> fst ` set al"
      using Cons.prems(1) by auto
    then have "\<forall>e\<in>set al. fst e \<noteq> n"
      by (auto simp: image_iff)
    then have "filter (\<lambda>e. fst e = n) al = []"
      by (simp add: filter_empty_conv)
    then show ?thesis using True by simp
  next
    case False
    then show ?thesis using Cons by auto
  qed
qed

lemma assign_name_other:
  "assign_name f n st = Some st' \<Longrightarrow> n \<noteq> m \<Longrightarrow>
   map_of (st_codepoints st') m = map_of (st_codepoints st) m"
  by (erule assign_name_cases) (simp_all add: map_of_set_prop_other)

lemma assign_names_other:
  "assign_names fns st = Some st' \<Longrightarrow> m \<notin> snd ` set fns \<Longrightarrow>
   map_of (st_codepoints st') m = map_of (st_codepoints st) m"
proof (induction fns arbitrary: st)
  case Nil
  then show ?case by simp
next
  case (Cons fn fns)
  then obtain st1 where a: "assign_name (fst fn) (snd fn) st = Some st1"
    and b: "assign_names fns st1 = Some st'"
    by (auto split: option.splits)
  have "map_of (st_codepoints st1) m = map_of (st_codepoints st) m"
    using a Cons.prems(2) by (intro assign_name_other) auto
  then show ?case using Cons.IH [OF b] Cons.prems(2) by simp
qed

lemma assign_name_keys:
  "assign_name f n st = Some st' \<Longrightarrow> fst ` set (st_codepoints st) \<subseteq> fst ` set (st_codepoints st')"
proof (erule assign_name_cases)
  fix c
  assume "st_codepoints st' = set_prop (st_codepoints st) n c"
  then show ?thesis using set_prop_keys [of "st_codepoints st" n c] by simp
next
  assume "st_codepoints st' = st_codepoints st"
  then show ?thesis by simp
qed

lemma assign_names_keys:
  "assign_names fns st = Some st' \<Longrightarrow> fst ` set (st_codepoints st) \<subseteq> fst ` set (st_codepoints st')"
proof (induction fns arbitrary: st)
  case Nil
  then show ?case by simp
next
  case (Cons fn fns)
  then obtain st1 where a: "assign_name (fst fn) (snd fn) st = Some st1"
    and b: "assign_names fns st1 = Some st'"
    by (auto split: option.splits)
  show ?case
    using Cons.IH [OF b] assign_name_keys [OF a] by blast
qed

lemma assign_name_has_key:
  assumes "assign_name f n st = Some st'" and "n \<notin> set object_prototype_keys"
  shows "n \<in> fst ` set (st_codepoints st')"
  using assms(1)
proof (cases rule: assign_name_cases)
  case (assigned v)
  have "n \<noteq> ''__proto__''" using assms(2) by (auto simp: object_prototype_keys_def)
  then show ?thesis using assigned(4) by (simp add: set_prop_new_key)
next
  case kept
  then obtain v where "map_of (st_codepoints st) n = Some v"
    using assms(2) by (auto simp: falsy_def get_prop_def split: option.splits)
  then have "n \<in> fst ` set (st_codepoints st)"
    by (metis domI dom_map_of_conv_image_fst)
  then show ?thesis using kept by simp
qed

lemma assign_names_has_key:
  "assign_names fns st = Some st' \<Longrightarrow> n \<in> snd ` set fns \<Longrightarrow> n \<notin> set object_prototype_keys \<Longrightarrow>
   n \<in> fst ` set (st_codepoints st')"
proof (induction fns arbitrary: st)
  case Nil
  then show ?case by simp
next
  case (Cons fn fns)
  then obtain st1 where a: "assign_name (fst fn) (snd fn) st = Some st1"
    and b: "assign_names fns st1 = Some st'"
    by (auto split: option.splits)
  show ?case
  proof (cases "snd fn = n")
    case True
    then have "n \<in> fst ` set (st_codepoints st1)"
      using a Cons.prems(3) assign_name_has_key by blast
    then show ?thesis using assign_names_keys [OF b] by blast
  next
    case False
    then have "n \<in> snd ` set fns" using Cons.prems(2) by auto
    then show ?thesis using Cons.IH [OF b] Cons.prems(3) by simp
  qed
qed

text \<open>
  What holds of the overrides in every request (with C2 and C10): an override to a
  codepoint other than 0, under a name other than \<open>__proto__\<close>, is the entry of its name
  in the final table, whatever the files are.
\<close>

theorem X1_nonzero_override_kept:
  assumes "distinct (map fst (overrides opts))"
    and "(n, c) \<in> set (overrides opts)" and "c \<noteq> 0" and "n \<noteq> ''__proto__''"
    and "final_codepoints parse_name opts = Some tbl"
  shows "map_of tbl n = Some c"
proof -
  from assms(5) obtain st' where s: "assign_names (resolved parse_name opts) (init_state opts) = Some st'"
    and t: "st_codepoints st' = tbl"
    using final_table_state by blast
  have "map_of (st_codepoints (init_state opts)) n = Some c"
    using assms by (simp add: init_state_def seed_override)
  then show ?thesis
    using assign_names_keeps_truthy [OF s _ assms(3)] t by simp
qed

text \<open>
  An override under a name other than \<open>__proto__\<close> that no file resolves to is the entry
  of its name in the final table, and its rule is in the stylesheet.
\<close>

theorem X2_override_without_file:
  assumes "distinct (map fst (overrides opts))"
    and "(n, c) \<in> set (overrides opts)" and "n \<noteq> ''__proto__''"
    and "\<forall>file\<in>set (files opts). resolve_name parse_name opts file \<noteq> n"
    and "final_codepoints parse_name opts = Some tbl"
  shows "map_of tbl n = Some c \<and> icon_rule opts (n, c) \<in> set (icon_rules opts tbl)"
proof -
  from assms(5) obtain st' where s: "assign_names (resolved parse_name opts) (init_state opts) = Some st'"
    and t: "st_codepoints st' = tbl"
    using final_table_state by blast
  have "map_of (st_codepoints (init_state opts)) n = Some c"
    using assms by (simp add: init_state_def seed_override)
  moreover have "n \<notin> snd ` set (resolved parse_name opts)"
    using assms(4) by (auto simp: resolved_def)
  ultimately have m: "map_of tbl n = Some c"
    using assign_names_other [OF s] t by simp
  then have "(n, c) \<in> set (object_entries tbl)"
    by (simp add: set_object_entries map_of_SomeD)
  then show ?thesis using m by (simp add: icon_rules_def)
qed

text \<open>
  What holds of the renames in every request (with C5): a name that a file resolves to
  and that is not a member of \<open>Object.prototype\<close> has exactly one entry in the final
  table, however many files resolve to it.
\<close>

theorem X3_one_entry_per_resolved_name:
  assumes "file \<in> set (files opts)"
    and "resolve_name parse_name opts file \<notin> set object_prototype_keys"
    and "final_codepoints parse_name opts = Some tbl"
  shows "length (filter (\<lambda>e. fst e = resolve_name parse_name opts file) tbl) = 1"
proof -
  from assms(3) obtain st' where s: "assign_names (resolved parse_name opts) (init_state opts) = Some st'"
    and t: "st_codepoints st' = tbl"
    using final_table_state by blast
  have "resolve_name parse_name opts file \<in> snd ` set (resolved parse_name opts)"
    using assms(1) by (force simp: resolved_def)
  then have "resolve_name parse_name opts file \<in> fst ` set tbl"
    using assign_names_has_key [OF s _ assms(2)] t by simp
  then show ?thesis
    using final_distinct_keys [OF assms(3)] by (rule one_entry_per_key [rotated])
qed

theorem X1_nonzero_override_kept_witness:
  "final_codepoints before_dot
     ((request [''b.svg'', ''five.svg''])\<lparr>codepoints := Some [(''five'', 65)]\<rparr>)
     = Some [(''five'', 65), (''b'', 0xf102)]
   \<and> map_of [(''five'', 65), (''b'', 0xf102 :: int)] ''five'' = Some 65"
proof -
  let ?r = "(request [''b.svg'', ''five.svg''])\<lparr>codepoints := Some [(''five'', 65)]\<rparr>"
  have d: "distinct (map fst (overrides ?r))"
    by (simp add: overrides_def)
  have m: "(''five'', 65) \<in> set (overrides ?r)"
    by (simp add: overrides_def)
  have t: "final_codepoints before_dot ?r = Some [(''five'', 65), (''b'', 0xf102)]"
    by (simp add: alloc_eval)
  show ?thesis
    using X1_nonzero_override_kept [OF d m _ _ t] t by simp
qed

theorem X2_override_without_file_witness:
  "final_codepoints before_dot ((request [''a.svg''])\<lparr>codepoints := Some [(''ghost'', 66)]\<rparr>)
     = Some [(''ghost'', 66), (''a'', 0xf102)]
   \<and> icon_rule ((request [''a.svg''])\<lparr>codepoints := Some [(''ghost'', 66)]\<rparr>) (''ghost'', 66)
     \<in> set (icon_rules ((request [''a.svg''])\<lparr>codepoints := Some [(''ghost'', 66)]\<rparr>)
           [(''ghost'', 66), (''a'', 0xf102)])"
proof -
  let ?r = "(request [''a.svg''])\<lparr>codepoints := Some [(''ghost'', 66)]\<rparr>"
  have d: "distinct (map fst (overrides ?r))"
    by (simp add: overrides_def)
  have m: "(''ghost'', 66) \<in> set (overrides ?r)"
    by (simp add: overrides_def)
  have p: "''ghost'' \<noteq> ''__proto__''"
    by simp
  have f: "\<forall>file\<in>set (files ?r). resolve_name before_dot ?r file \<noteq> ''ghost''"
    by (simp add: request_def resolve_name_def before_dot_def)
  have t: "final_codepoints before_dot ?r = Some [(''ghost'', 66), (''a'', 0xf102)]"
    by (simp add: alloc_eval)
  show ?thesis
    using X2_override_without_file [OF d m p f t] t by simp
qed

theorem X3_one_entry_per_resolved_name_witness:
  "final_codepoints before_dot
     ((request [''x.svg'', ''y.svg''])\<lparr>renames := Some [(''x'', ''icon''), (''y'', ''icon'')]\<rparr>)
     = Some [(''icon'', 0xf102)]
   \<and> length (filter (\<lambda>e. fst e = ''icon'') [(''icon'', 0xf102 :: int)]) = 1"
proof -
  let ?r = "(request [''x.svg'', ''y.svg''])\<lparr>renames := Some [(''x'', ''icon''), (''y'', ''icon'')]\<rparr>"
  have f: "''y.svg'' \<in> set (files ?r)"
    by (simp add: request_def)
  have n: "resolve_name before_dot ?r ''y.svg'' = ''icon''"
    by (simp add: request_def resolve_name_def before_dot_def get_prop_def)
  have k: "resolve_name before_dot ?r ''y.svg'' \<notin> set object_prototype_keys"
    unfolding n by (simp add: object_prototype_keys_def)
  have t: "final_codepoints before_dot ?r = Some [(''icon'', 0xf102)]"
    by (simp add: alloc_eval)
  show ?thesis
    using X3_one_entry_per_resolved_name [OF f k t] n t by simp
qed

end
